theory Spec2Isabelle
  imports Main "HOL-Library.AList" "HOL-Library.Sublist"
begin

section \<open>Producer/consumer scheduling: the embedded program\<close>

text \<open>
  The development embeds \<^verbatim>\<open>linear/algorithms/producer_consumer.py\<close>.
  Numbers (required units, capacities, prices, solution values) are values of a type
  \<open>'n\<close> of which only \<open>0\<close>, \<open>1\<close>, \<open>+\<close>, \<open>*\<close> and the order are used: no law of arithmetic
  is assumed, so what is proved does not depend on how the sums are rounded.
  Exceptions are values of the type \<open>error\<close>; a function that can raise returns
  \<open>error + 'a\<close>, with \<open>Inl\<close> for the exception.
\<close>

datatype error =
  AssertionError | ZeroDivisionError | OverflowError | TypeError | AttributeError | KeyError

subsection \<open>Dates\<close>

text \<open>
  A \<^verbatim>\<open>datetime\<close> is the number of microseconds since \<^verbatim>\<open>datetime.min\<close>, a
  \<^verbatim>\<open>timedelta\<close> a number of microseconds. A datetime lies between
  \<^verbatim>\<open>datetime.min\<close>, which is 0, and \<^verbatim>\<open>datetime.max\<close>, the last microsecond of the
  year 9999; adding a timedelta to a datetime raises \<^verbatim>\<open>OverflowError\<close> when the sum
  leaves this range.
\<close>

type_synonym date = int

definition minutes :: "int \<Rightarrow> int" where
  "minutes m = m * 60000000"

definition datetime_max :: date where
  "datetime_max = 315537897599999999"

definition add_timedelta :: "date \<Rightarrow> int \<Rightarrow> error + date" where
  "add_timedelta dt delta =
     (if dt + delta < 0 \<or> datetime_max < dt + delta then Inl OverflowError
      else Inr (dt + delta))"

text \<open>
  \<^verbatim>\<open>ceil_dt(dt, delta) = dt + (datetime.min - dt) % delta\<close>. The remainder of two
  timedeltas is the floor remainder of their microseconds and raises
  \<^verbatim>\<open>ZeroDivisionError\<close> for an empty \<^verbatim>\<open>delta\<close>.
\<close>

definition ceil_dt :: "date \<Rightarrow> int \<Rightarrow> error + date" where
  "ceil_dt dt delta =
     (if delta = 0 then Inl ZeroDivisionError else add_timedelta dt ((0 - dt) mod delta))"

text \<open>
  \<^verbatim>\<open>list(rrule(MINUTELY, interval=i, dtstart=d, count=c))\<close> of \<^verbatim>\<open>dateutil\<close>: the
  start with its microseconds dropped, then one instant every \<open>i\<close> minutes, \<open>c\<close>
  instants in all. The iteration of \<^verbatim>\<open>dateutil\<close> ends, without an exception, when
  it leaves the year 9999, so the instants after \<^verbatim>\<open>datetime.max\<close> are missing.
\<close>

definition rrule_minutely :: "int \<Rightarrow> date \<Rightarrow> int \<Rightarrow> date list" where
  "rrule_minutely interval dtstart count =
     takeWhile (\<lambda>t. t \<le> datetime_max)
       (map (\<lambda>k. (dtstart - dtstart mod 1000000) + minutes (int k * interval))
          [0..<nat count])"

subsection \<open>Entities\<close>

record 'n Consumer =
  consumer_id :: string
  required_units :: 'n
  departure_date :: date

text \<open>
  A producer is compared by object identity in the set that \<^verbatim>\<open>_get_producers\<close>
  builds (the class defines \<^verbatim>\<open>__hash__\<close> only), so the record carries the
  identity of the object, \<open>producer_ref\<close>. The building of a producer is not read by
  the solve and is left out.
\<close>

record 'n Producer =
  producer_ref :: nat
  producer_id :: string
  max_supply :: 'n

record 'n Delivery =
  consumer :: "'n Consumer"
  producer :: "'n Producer"
  delivery_id :: string

text \<open>\<^verbatim>\<open>self.id = f"c-{self.consumer.id}, p-{self.producer.id}"\<close>\<close>

definition make_delivery_id :: "string \<Rightarrow> string \<Rightarrow> string" where
  "make_delivery_id cid pid = ''c-'' @ cid @ '', p-'' @ pid"

definition Delivery_init :: "'n Consumer \<Rightarrow> 'n Producer \<Rightarrow> 'n Delivery" where
  "Delivery_init c p =
     \<lparr>consumer = c, producer = p,
      delivery_id = make_delivery_id (consumer_id c) (producer_id p)\<rparr>"

record 'n UnitPrice =
  up_date_from :: "date option"
  up_date_until :: "date option"
  up_block_number :: "int option"
  up_price :: 'n

record 'n TimeBlock =
  number :: nat
  date_from :: date
  date_until :: date
  price :: 'n

subsection \<open>Time blocks\<close>

text \<open>
  The nested function \<^verbatim>\<open>get_price_for_date_or_number\<close>: the loop over the price
  rules returns at the first rule whose \<^verbatim>\<open>block_number\<close> equals the number, or
  whose two dates are both given and enclose the date; after the loop it returns 0.
\<close>

fun get_price_for_date_or_number :: "('n::zero) UnitPrice list \<Rightarrow> date \<Rightarrow> nat \<Rightarrow> 'n" where
  "get_price_for_date_or_number [] date n = 0"
| "get_price_for_date_or_number (energy_price # rest) date n =
     (if up_block_number energy_price = Some (int n) then up_price energy_price
      else if (case (up_date_from energy_price, up_date_until energy_price) of
                 (Some f, Some u) \<Rightarrow> f \<le> date \<and> date < u
               | _ \<Rightarrow> False)
           then up_price energy_price
      else get_price_for_date_or_number rest date n)"

text \<open>
  \<^verbatim>\<open>TimeBlock.period_to_blocks\<close>. The two assertions come first;
  \<^verbatim>\<open>int(60 / blocks_per_hour)\<close> is \<open>60 div blocks_per_hour\<close> for a positive integer.
  The result is the dictionary \<^verbatim>\<open>{str(number): TimeBlock(...)}\<close> over
  \<^verbatim>\<open>enumerate(times)\<close>: its keys are \<^verbatim>\<open>str(0)\<close>, \<^verbatim>\<open>str(1)\<close>, ... in this order,
  all different, so it is modelled as the list of its values and
  \<^verbatim>\<open>time_blocks.get(str(k))\<close> is the \<open>k\<close>-th entry. A missing list of prices
  (\<^verbatim>\<open>unit_prices or []\<close>) is the empty list. \<open>make_blocks\<close> is the dictionary
  comprehension: the end of a block, \<^verbatim>\<open>time + timedelta(minutes=minutes_per_block)\<close>, is
  an addition that can leave the calendar.
\<close>

fun make_blocks ::
  "int \<Rightarrow> ('n::zero) UnitPrice list \<Rightarrow> (nat \<times> date) list \<Rightarrow> error + 'n TimeBlock list" where
  "make_blocks minutes_per_block unit_prices [] = Inr []"
| "make_blocks minutes_per_block unit_prices ((n, time) # rest) =
     (case add_timedelta time (minutes minutes_per_block) of
        Inl e \<Rightarrow> Inl e
      | Inr until \<Rightarrow>
          (case make_blocks minutes_per_block unit_prices rest of
             Inl e \<Rightarrow> Inl e
           | Inr blocks \<Rightarrow>
               Inr (\<lparr>number = n,
                     date_from = time,
                     date_until = until,
                     price = get_price_for_date_or_number unit_prices time n\<rparr> # blocks)))"

definition period_to_blocks ::
  "int \<Rightarrow> int \<Rightarrow> date \<Rightarrow> ('n::zero) UnitPrice list \<Rightarrow> error + 'n TimeBlock list" where
  "period_to_blocks blocks_per_hour hours initial_date unit_prices =
     (if \<not> blocks_per_hour > 0 then Inl AssertionError
      else if \<not> hours > 0 then Inl AssertionError
      else
        let total_blocks = blocks_per_hour * hours;
            minutes_per_block = 60 div blocks_per_hour
        in case ceil_dt initial_date (minutes minutes_per_block) of
             Inl e \<Rightarrow> Inl e
           | Inr start_date \<Rightarrow>
               let times = rrule_minutely minutes_per_block start_date total_blocks
               in make_blocks minutes_per_block unit_prices (enumerate 0 times))"

text \<open>The span from the start of the first block to the end of the last one.\<close>

definition covered :: "'n TimeBlock list \<Rightarrow> int" where
  "covered blocks =
     (if blocks = [] then 0 else date_until (last blocks) - date_from (hd blocks))"

text \<open>
  A rule matches a block in the words of the specification: by its explicit block
  number, or, when it has both dates, by containing the start of the block in its
  end-exclusive interval.
\<close>

definition rule_matches :: "'n UnitPrice \<Rightarrow> date \<Rightarrow> nat \<Rightarrow> bool" where
  "rule_matches r block_start n \<longleftrightarrow>
     up_block_number r = Some (int n) \<or>
     (case up_date_from r of
        None \<Rightarrow> False
      | Some f \<Rightarrow> (case up_date_until r of
                     None \<Rightarrow> False
                   | Some u \<Rightarrow> f \<le> block_start \<and> block_start < u))"

subsection \<open>The algorithm and its builder\<close>

text \<open>
  The configuration attributes of \<^verbatim>\<open>ProducerConsumerAlgorithm\<close>. The dictionary
  \<^verbatim>\<open>deliveries\<close> is an association list in insertion order. The company is stored and
  never read by the solve, so it is left out; \<^verbatim>\<open>time_blocks\<close>, \<^verbatim>\<open>solver\<close> and
  \<^verbatim>\<open>variables\<close>, which \<^verbatim>\<open>solve\<close> assigns, are the record \<open>Built\<close> below. The
  constructor reads the clock for \<^verbatim>\<open>initial_date\<close>: the instant is its argument.
\<close>

record 'n Algorithm =
  initial_date :: date
  blocks_per_hour :: int
  hours :: int
  unit_prices :: "'n UnitPrice list"
  deliveries :: "(string \<times> 'n Delivery) list"
  name :: string

definition Algorithm_init :: "string \<Rightarrow> date \<Rightarrow> 'n Algorithm" where
  "Algorithm_init nm now =
     \<lparr>initial_date = now, blocks_per_hour = 4, hours = 24, unit_prices = [],
      deliveries = [], name = nm\<rparr>"

definition with_initial_date :: "'n Algorithm \<Rightarrow> date \<Rightarrow> 'n Algorithm" where
  "with_initial_date a d = a\<lparr>initial_date := d\<rparr>"

definition with_hours :: "'n Algorithm \<Rightarrow> int \<Rightarrow> 'n Algorithm" where
  "with_hours a h = a\<lparr>hours := h\<rparr>"

definition with_blocks_per_hour :: "'n Algorithm \<Rightarrow> int \<Rightarrow> 'n Algorithm" where
  "with_blocks_per_hour a b = a\<lparr>blocks_per_hour := b\<rparr>"

text \<open>
  \<^verbatim>\<open>assert block_number is not None or (date_from and date_until)\<close>: a datetime is
  always true, so a date is false exactly when it is \<^verbatim>\<open>None\<close>.
\<close>

definition with_unit_price ::
  "'n Algorithm \<Rightarrow> date option \<Rightarrow> date option \<Rightarrow> int option \<Rightarrow> 'n \<Rightarrow> error + 'n Algorithm" where
  "with_unit_price a df du bn p =
     (if bn \<noteq> None \<or> (df \<noteq> None \<and> du \<noteq> None)
      then Inr (a\<lparr>unit_prices := unit_prices a @
                    [\<lparr>up_date_from = df, up_date_until = du, up_block_number = bn, up_price = p\<rparr>]\<rparr>)
      else Inl AssertionError)"

text \<open>
  \<^verbatim>\<open>self.deliveries[delivery.id] = delivery\<close>: a new key is appended, a key already
  there keeps its place and gets the new value.
\<close>

definition with_delivery :: "'n Algorithm \<Rightarrow> 'n Consumer \<Rightarrow> 'n Producer \<Rightarrow> 'n Algorithm" where
  "with_delivery a c p =
     (let delivery = Delivery_init c p
      in a\<lparr>deliveries := AList.update (delivery_id delivery) delivery (deliveries a)\<rparr>)"

text \<open>\<^verbatim>\<open>_prepare_data\<close>: the time blocks of the configuration.\<close>

definition prepare_data :: "('n::zero) Algorithm \<Rightarrow> error + 'n TimeBlock list" where
  "prepare_data a =
     period_to_blocks (blocks_per_hour a) (hours a) (initial_date a) (unit_prices a)"

subsection \<open>The linear solver\<close>

text \<open>
  The solver of \<^verbatim>\<open>pywraplp\<close> is an external collaborator. What the program does
  with it is recorded: the variables and constraints it creates, in creation order, and
  the coefficients it sets. A variable or constraint object is its index in that order.
  Such an object is always true in a condition, whatever its index, and \<^verbatim>\<open>None\<close> is
  false. \<open>Infinity\<close> is \<^verbatim>\<open>solver.infinity()\<close>.
\<close>

datatype 'n bound = Finite 'n | Infinity

record 'n Variable =
  var_lb :: "'n bound"
  var_ub :: "'n bound"
  var_name :: string

record 'n Constraint =
  con_lb :: 'n
  con_ub :: 'n
  coefficients :: "(nat \<times> 'n) list"

record 'n Solver =
  solver_variables :: "'n Variable list"
  solver_constraints :: "'n Constraint list"
  objective :: "(nat \<times> 'n) list"
  minimization :: bool

definition Solver_init :: "'n Solver" where
  "Solver_init =
     \<lparr>solver_variables = [], solver_constraints = [], objective = [], minimization = False\<rparr>"

definition NumVar :: "'n bound \<Rightarrow> 'n bound \<Rightarrow> string \<Rightarrow> 'n Solver \<Rightarrow> nat \<times> 'n Solver" where
  "NumVar lb ub nm s =
     (length (solver_variables s),
      s\<lparr>solver_variables := solver_variables s @ [\<lparr>var_lb = lb, var_ub = ub, var_name = nm\<rparr>]\<rparr>)"

definition Constraint :: "'n \<Rightarrow> 'n \<Rightarrow> 'n Solver \<Rightarrow> nat \<times> 'n Solver" where
  "Constraint lb ub s =
     (length (solver_constraints s),
      s\<lparr>solver_constraints := solver_constraints s @
           [\<lparr>con_lb = lb, con_ub = ub, coefficients = []\<rparr>]\<rparr>)"

definition SetCoefficient :: "nat \<Rightarrow> nat \<Rightarrow> 'n \<Rightarrow> 'n Solver \<Rightarrow> 'n Solver" where
  "SetCoefficient c v k s =
     s\<lparr>solver_constraints :=
         (solver_constraints s)
           [c := (solver_constraints s ! c)
                   \<lparr>coefficients := AList.update v k (coefficients (solver_constraints s ! c))\<rparr>]\<rparr>"

definition Objective_SetCoefficient :: "nat \<Rightarrow> 'n \<Rightarrow> 'n Solver \<Rightarrow> 'n Solver" where
  "Objective_SetCoefficient v k s = s\<lparr>objective := AList.update v k (objective s)\<rparr>"

definition SetMinimization :: "'n Solver \<Rightarrow> 'n Solver" where
  "SetMinimization s = s\<lparr>minimization := True\<rparr>"

text \<open>The statuses of \<^verbatim>\<open>pywraplp.Solver\<close>.\<close>

datatype status = OPTIMAL | FEASIBLE | INFEASIBLE | UNBOUNDED | ABNORMAL | MODEL_INVALID | NOT_SOLVED

subsection \<open>Loops that may raise\<close>

text \<open>A \<^verbatim>\<open>for\<close> loop over a list: the first exception of the body ends it.\<close>

fun for_each :: "('a \<Rightarrow> 's \<Rightarrow> error + 's) \<Rightarrow> 'a list \<Rightarrow> 's \<Rightarrow> error + 's" where
  "for_each body [] s = Inr s"
| "for_each body (x # xs) s =
     (case body x s of Inl e \<Rightarrow> Inl e | Inr s' \<Rightarrow> for_each body xs s')"

text \<open>\<^verbatim>\<open>str\<close> of a natural number, for the names of the variables.\<close>

fun str_nat :: "nat \<Rightarrow> string" where
  "str_nat n =
     (if n < 10 then [''0123456789'' ! n]
      else str_nat (n div 10) @ [''0123456789'' ! (n mod 10)])"

declare str_nat.simps [simp del]

subsection \<open>Building the model\<close>

text \<open>
  What \<^verbatim>\<open>solve\<close> assigns on the algorithm: the time blocks, the solver, and the
  dictionary \<^verbatim>\<open>variables\<close> from a delivery id to the dictionary from a block number
  to the variable of the pair.
\<close>

record 'n Built =
  time_blocks :: "'n TimeBlock list"
  solver :: "'n Solver"
  variables :: "(string \<times> (nat \<times> nat) list) list"

text \<open>
  The body of the first double loop, for one delivery and one block number. The block is
  \<^verbatim>\<open>self.time_blocks.get(str(block_number))\<close> with \<open>block_number\<close> in
  \<^verbatim>\<open>range(0, len(self.time_blocks))\<close>. Assigning into
  \<^verbatim>\<open>self.variables.get(delivery.id)\<close> raises \<^verbatim>\<open>TypeError\<close> when the key is missing.
\<close>

definition create_variable ::
  "('n::zero) Delivery \<Rightarrow> nat \<Rightarrow> 'n Built \<Rightarrow> error + 'n Built" where
  "create_variable delivery block_number st =
     (let time_block = time_blocks st ! block_number
      in if date_until time_block \<le> departure_date (consumer delivery)
         then
           (let (v, s1) = NumVar (Finite 0) Infinity
                            (delivery_id delivery @ ''-'' @ str_nat (number time_block))
                            (solver st)
            in case map_of (variables st) (delivery_id delivery) of
                 None \<Rightarrow> Inl TypeError
               | Some delivery_vars \<Rightarrow>
                   Inr (st\<lparr>solver := Objective_SetCoefficient v (price time_block) s1,
                           variables := AList.update (delivery_id delivery)
                                          (AList.update block_number v delivery_vars)
                                          (variables st)\<rparr>))
         else Inr st)"

definition create_variables ::
  "(string \<times> ('n::zero) Delivery) list \<Rightarrow> 'n Built \<Rightarrow> error + 'n Built" where
  "create_variables ds st =
     for_each (\<lambda>(key, delivery).
                 for_each (create_variable delivery) [0..<length (time_blocks st)])
              ds st"

text \<open>
  The second loop. The local dictionary \<^verbatim>\<open>consumer_constraints\<close>, from a consumer
  id to a constraint, is \<open>constraints_by_id\<close>; the state of the loop is the solver and
  this dictionary. Every
  delivery makes a new constraint and stores it under the id of its consumer; the inner
  loop reads the dictionary at that id (a subscript, \<^verbatim>\<open>KeyError\<close> when missing) and
  the variables of the delivery through \<^verbatim>\<open>get\<close>.
\<close>

definition consumer_coefficient ::
  "'n Delivery \<Rightarrow> (string \<times> (nat \<times> nat) list) list \<Rightarrow> nat \<Rightarrow>
   ('n::one) Solver \<times> (string \<times> nat) list \<Rightarrow> error + 'n Solver \<times> (string \<times> nat) list" where
  "consumer_coefficient delivery vars block_number = (\<lambda>(s, constraints_by_id).
     case map_of vars (delivery_id delivery) of
       None \<Rightarrow> Inl AttributeError
     | Some delivery_vars \<Rightarrow>
         (case map_of delivery_vars block_number of
            None \<Rightarrow> Inr (s, constraints_by_id)
          | Some variable \<Rightarrow>
              (case map_of constraints_by_id (consumer_id (consumer delivery)) of
                 None \<Rightarrow> Inl KeyError
               | Some c \<Rightarrow> Inr (SetCoefficient c variable 1 s, constraints_by_id))))"

definition consumer_constraint ::
  "(string \<times> (nat \<times> nat) list) list \<Rightarrow> nat \<Rightarrow> string \<times> 'n Delivery \<Rightarrow>
   ('n::one) Solver \<times> (string \<times> nat) list \<Rightarrow> error + 'n Solver \<times> (string \<times> nat) list" where
  "consumer_constraint vars n_blocks = (\<lambda>(key, delivery) (s, constraints_by_id).
     let co = consumer delivery;
         (c, s1) = Constraint (required_units co) (required_units co) s
     in for_each (consumer_coefficient delivery vars) [0..<n_blocks]
          (s1, AList.update (consumer_id co) c constraints_by_id))"

definition consumer_constraints ::
  "(string \<times> 'n Delivery) list \<Rightarrow> ('n::one) Built \<Rightarrow> error + 'n Built" where
  "consumer_constraints ds st =
     (case for_each (consumer_constraint (variables st) (length (time_blocks st))) ds
             (solver st, []) of
        Inl e \<Rightarrow> Inl e
      | Inr (s, _) \<Rightarrow> Inr (st\<lparr>solver := s\<rparr>))"

text \<open>
  \<^verbatim>\<open>_get_producers\<close> is the set of the producer objects of the deliveries. The order
  in which a Python set is iterated is not specified: the model takes every object once,
  in the order \<open>remdups\<close> leaves, and nothing proved below depends on that order.
\<close>

definition get_producers :: "(string \<times> 'n Delivery) list \<Rightarrow> 'n Producer list" where
  "get_producers ds = remdups (map (\<lambda>(key, delivery). producer delivery) ds)"

text \<open>
  The third loop: one new constraint for every producer and block number, with a
  coefficient for the variable of that block of every delivery whose producer has the
  id of this producer.
\<close>

definition producer_coefficient ::
  "'n Producer \<Rightarrow> (string \<times> 'n Delivery) list \<Rightarrow> nat \<Rightarrow> nat \<Rightarrow> string \<times> (nat \<times> nat) list \<Rightarrow>
   ('n::one) Solver \<Rightarrow> error + 'n Solver" where
  "producer_coefficient pr ds block_number c = (\<lambda>(key, delivery_vars) s.
     case map_of ds key of
       None \<Rightarrow> Inl AttributeError
     | Some delivery \<Rightarrow>
         if producer_id pr = producer_id (producer delivery)
         then (case map_of delivery_vars block_number of
                 None \<Rightarrow> Inr s
               | Some variable \<Rightarrow> Inr (SetCoefficient c variable 1 s))
         else Inr s)"

definition producer_constraint ::
  "(string \<times> 'n Delivery) list \<Rightarrow> (string \<times> (nat \<times> nat) list) list \<Rightarrow> 'n Producer \<Rightarrow> nat \<Rightarrow>
   ('n::{zero,one}) Solver \<Rightarrow> error + 'n Solver" where
  "producer_constraint ds vars pr block_number s =
     (let (c, s1) = Constraint 0 (max_supply pr) s
      in for_each (producer_coefficient pr ds block_number c) vars s1)"

definition producer_constraints ::
  "(string \<times> 'n Delivery) list \<Rightarrow> ('n::{zero,one}) Built \<Rightarrow> error + 'n Built" where
  "producer_constraints ds st =
     (case for_each (\<lambda>pr. for_each (producer_constraint ds (variables st) pr)
                              [0..<length (time_blocks st)])
             (get_producers ds) (solver st) of
        Inl e \<Rightarrow> Inl e
      | Inr s \<Rightarrow> Inr (st\<lparr>solver := s\<rparr>))"

text \<open>
  The part of \<^verbatim>\<open>solve\<close> before the call of the solver: the time blocks, an empty
  dictionary of variables for every delivery, then the three loops.
\<close>

definition build_model :: "('n::{zero,one}) Algorithm \<Rightarrow> error + 'n Built" where
  "build_model a =
     (case prepare_data a of
        Inl e \<Rightarrow> Inl e
      | Inr blocks \<Rightarrow>
          let st0 = \<lparr>time_blocks = blocks, solver = Solver_init,
                     variables = map (\<lambda>(key, delivery). (key, [])) (deliveries a)\<rparr>
          in case create_variables (deliveries a) st0 of
               Inl e \<Rightarrow> Inl e
             | Inr st1 \<Rightarrow>
                 (case consumer_constraints (deliveries a)
                         (st1\<lparr>solver := SetMinimization (solver st1)\<rparr>) of
                    Inl e \<Rightarrow> Inl e
                  | Inr st2 \<Rightarrow> producer_constraints (deliveries a) st2))"

subsection \<open>The schedule\<close>

text \<open>One entry of \<^verbatim>\<open>Schedule.deliveries\<close>, a dictionary with these five keys.\<close>

record 'n DeliveryRecord =
  time_block :: nat
  producer_of :: string
  consumer_of :: string
  units_to_supply :: 'n
  unit_price :: 'n

record 'n Schedule =
  schedule_name :: string
  total_price :: 'n
  schedule_deliveries :: "'n DeliveryRecord list"
  solved :: bool
  result :: string

text \<open>
  The body of the inner loop of \<^verbatim>\<open>Schedule.__init__\<close>, for one entry of the
  variables of a delivery. \<^verbatim>\<open>variable.solution_value()\<close> is the function
  \<open>solution_value\<close>. Reading the price of a block that
  \<^verbatim>\<open>time_blocks.get\<close> does not find raises \<^verbatim>\<open>AttributeError\<close>.
\<close>

definition extract_variable ::
  "'n Producer \<Rightarrow> 'n Consumer \<Rightarrow> 'n TimeBlock list \<Rightarrow> (nat \<Rightarrow> 'n) \<Rightarrow> nat \<times> nat \<Rightarrow>
   ('n::{zero,plus,times,ord}) Schedule \<Rightarrow> error + 'n Schedule" where
  "extract_variable pr co blocks solution_value = (\<lambda>(block_number, variable) sch.
     let val = solution_value variable
     in if 0 < val
        then (if block_number < length blocks
              then (let block = blocks ! block_number
                    in Inr (sch\<lparr>total_price := total_price sch + val * price block,
                               schedule_deliveries := schedule_deliveries sch @
                                 [\<lparr>time_block = block_number,
                                   producer_of = producer_id pr,
                                   consumer_of = consumer_id co,
                                   units_to_supply = val,
                                   unit_price = price block\<rparr>]\<rparr>))
              else Inl AttributeError)
        else Inr sch)"

definition extract_delivery ::
  "(string \<times> 'n Delivery) list \<Rightarrow> 'n TimeBlock list \<Rightarrow> (nat \<Rightarrow> 'n) \<Rightarrow>
   string \<times> (nat \<times> nat) list \<Rightarrow> ('n::{zero,plus,times,ord}) Schedule \<Rightarrow> error + 'n Schedule" where
  "extract_delivery ds blocks solution_value = (\<lambda>(key, delivery_vars) sch.
     case map_of ds key of
       None \<Rightarrow> Inl AttributeError
     | Some delivery \<Rightarrow>
         for_each (extract_variable (producer delivery) (consumer delivery) blocks solution_value)
           delivery_vars sch)"

text \<open>
  \<^verbatim>\<open>Schedule.__init__(name, status, algorithm)\<close>; of the algorithm it reads the
  deliveries, the time blocks, the variables and, through the variables, the values of
  the solver.
\<close>

definition Schedule_init ::
  "string \<Rightarrow> status \<Rightarrow> (string \<times> 'n Delivery) list \<Rightarrow> 'n Built \<Rightarrow> (nat \<Rightarrow> 'n) \<Rightarrow>
   error + ('n::{zero,plus,times,ord}) Schedule" where
  "Schedule_init nm st ds built solution_value =
     (let sch = \<lparr>schedule_name = nm,
                  total_price = 0,
                  schedule_deliveries = [],
                  solved = (st = OPTIMAL \<or> st = FEASIBLE),
                  result = (if st = OPTIMAL then ''Optimal solution found''
                            else if st = FEASIBLE
                            then ''A potentially suboptimal solution was found.''
                            else ''The solver could not solve the problem.'')\<rparr>
      in if solved sch
         then for_each (extract_delivery ds (time_blocks built) solution_value)
                (variables built) sch
         else Inr sch)"

text \<open>
  The rows of the report, in the order \<^verbatim>\<open>Schedule.print\<close> writes them:
  \<^verbatim>\<open>sorted(self.deliveries, key=lambda k: k['time_block'])\<close>, a stable sort that
  leaves \<^verbatim>\<open>self.deliveries\<close> as it is. Nothing is written for a schedule that is not
  solved.
\<close>

definition printed_rows :: "'n Schedule \<Rightarrow> 'n DeliveryRecord list" where
  "printed_rows sch = (if solved sch then sort_key time_block (schedule_deliveries sch) else [])"

text \<open>
  \<^verbatim>\<open>solve\<close>. The call \<^verbatim>\<open>self.solver.Solve()\<close> and the values it leaves in the
  variables are the argument \<open>Solve\<close>, from the solver as built to a status and a value
  for every variable. The result is the schedule and, for \<^verbatim>\<open>schedule.algorithm\<close>, what
  the solve has built. The report is not part of the result.
\<close>

definition solve ::
  "('n Solver \<Rightarrow> status \<times> (nat \<Rightarrow> 'n)) \<Rightarrow> 'n Algorithm \<Rightarrow>
   error + 'n Built \<times> ('n::{zero,one,plus,times,ord}) Schedule" where
  "solve Solve a =
     (case build_model a of
        Inl e \<Rightarrow> Inl e
      | Inr st \<Rightarrow>
          (let (st_solve, solution_value) = Solve (solver st)
           in case Schedule_init (name a) st_solve (deliveries a) st solution_value of
                Inl e \<Rightarrow> Inl e
              | Inr sch \<Rightarrow> Inr (st, sch)))"

subsection \<open>Closed forms and scenarios used in the proofs\<close>

text \<open>
  The \<open>k\<close>-th block of a partition of width \<open>w\<close> minutes that starts at \<open>s\<close>.
\<close>

definition block_at :: "int \<Rightarrow> date \<Rightarrow> ('n::zero) UnitPrice list \<Rightarrow> nat \<Rightarrow> 'n TimeBlock" where
  "block_at w s rules k =
     \<lparr>number = k, date_from = s + minutes (int k * w),
      date_until = s + minutes (int k * w) + minutes w,
      price = get_price_for_date_or_number rules (s + minutes (int k * w)) k\<rparr>"

text \<open>
  The data of the test suite: the initial date 2019-01-02 00:00, which is 737060 days
  after \<^verbatim>\<open>datetime.min\<close>, and the two price rules of its first test, 2 for the first
  hour and 1 for the second.
\<close>

definition initial_date_t :: date where
  "initial_date_t = 63681984000000000"

definition unit_prices_t :: "int UnitPrice list" where
  "unit_prices_t =
     [\<lparr>up_date_from = Some initial_date_t, up_date_until = Some (initial_date_t + minutes 60),
       up_block_number = None, up_price = 2\<rparr>,
      \<lparr>up_date_from = Some (initial_date_t + minutes 60),
       up_date_until = Some (initial_date_t + minutes 120),
       up_block_number = None, up_price = 1\<rparr>]"

text \<open>
  The deliveries of an algorithm are a dictionary: its keys are all different, and
  \<^verbatim>\<open>with_delivery\<close> stores every delivery under its own id.
\<close>

definition registered :: "(string \<times> 'n Delivery) list \<Rightarrow> bool" where
  "registered ds \<longleftrightarrow> distinct (map fst ds) \<and> list_all (\<lambda>(k, d). k = delivery_id d) ds"

text \<open>
  The deadline test of the first loop, and \<^verbatim>\<open>self.variables.get(k).get(b)\<close>: the
  decision variable of the delivery with id \<open>k\<close> and the block number \<open>b\<close>, if there is
  one.
\<close>

definition feasible :: "'n TimeBlock list \<Rightarrow> 'n Delivery \<Rightarrow> nat \<Rightarrow> bool" where
  "feasible blocks d b \<longleftrightarrow> date_until (blocks ! b) \<le> departure_date (consumer d)"

definition variable_of :: "'n Built \<Rightarrow> string \<Rightarrow> nat \<Rightarrow> nat option" where
  "variable_of st k b = (case map_of (variables st) k of None \<Rightarrow> None | Some dv \<Rightarrow> map_of dv b)"

text \<open>
  Invariants of the first loop: every variable of the solver has the bounds 0 and
  infinity, and the dictionary of variables names every variable of the solver once.
\<close>

definition var_bounds_ok :: "('n::zero) Solver \<Rightarrow> bool" where
  "var_bounds_ok s \<longleftrightarrow>
     list_all (\<lambda>v. var_lb v = Finite 0 \<and> var_ub v = Infinity) (solver_variables s)"

definition handles_ok :: "'n Built \<Rightarrow> bool" where
  "handles_ok st \<longleftrightarrow>
     (\<forall>k b v. variable_of st k b = Some v \<longrightarrow> v < length (solver_variables (solver st)))
     \<and> (\<forall>k b k' b' v. variable_of st k b = Some v \<and> variable_of st k' b' = Some v
            \<longrightarrow> k = k' \<and> b = b')
     \<and> (\<forall>v < length (solver_variables (solver st)). \<exists>k b. variable_of st k b = Some v)"

text \<open>
  What the inner loop of the first loop does to the state when it has run through the
  block numbers \<open>bs\<close> for the delivery \<open>d\<close>.
\<close>

definition vars_grow :: "'n Delivery \<Rightarrow> nat list \<Rightarrow> ('n::zero) Built \<Rightarrow> 'n Built \<Rightarrow> bool" where
  "vars_grow d bs st st' \<longleftrightarrow>
     time_blocks st' = time_blocks st
     \<and> map fst (variables st') = map fst (variables st)
     \<and> (\<forall>k. k \<noteq> delivery_id d \<longrightarrow> map_of (variables st') k = map_of (variables st) k)
     \<and> (\<exists>dv dv'. map_of (variables st) (delivery_id d) = Some dv
           \<and> map_of (variables st') (delivery_id d) = Some dv'
           \<and> map fst dv' = map fst dv @ filter (feasible (time_blocks st) d) bs)
     \<and> solver_constraints (solver st') = solver_constraints (solver st)
     \<and> (var_bounds_ok (solver st) \<longrightarrow> var_bounds_ok (solver st'))
     \<and> (handles_ok st \<longrightarrow> handles_ok st')"

text \<open>
  The constraints in closed form. \<open>terms_step\<close> is one round of an inner loop that sets
  a coefficient 1 for the variable of a block, if the delivery has one; \<open>consumer_row\<close>
  is the constraint the second loop leaves for a delivery, \<open>producer_row\<close> the one the
  third loop leaves for a producer and a block number.
\<close>

definition terms_step :: "(nat \<times> nat) list \<Rightarrow> nat \<Rightarrow> (nat \<times> ('n::one)) list \<Rightarrow> (nat \<times> 'n) list" where
  "terms_step dv b co = (case map_of dv b of None \<Rightarrow> co | Some v \<Rightarrow> AList.update v 1 co)"

definition consumer_row ::
  "(string \<times> (nat \<times> nat) list) list \<Rightarrow> nat \<Rightarrow> string \<times> 'n Delivery \<Rightarrow> ('n::one) Constraint" where
  "consumer_row vars n = (\<lambda>(k, d).
     \<lparr>con_lb = required_units (consumer d),
      con_ub = required_units (consumer d),
      coefficients = fold (terms_step (case map_of vars (delivery_id d) of
                                         None \<Rightarrow> [] | Some dv \<Rightarrow> dv))
                       [0..<n] []\<rparr>)"

definition producer_step ::
  "'n Producer \<Rightarrow> (string \<times> 'n Delivery) list \<Rightarrow> nat \<Rightarrow> string \<times> (nat \<times> nat) list \<Rightarrow>
   (nat \<times> ('n::one)) list \<Rightarrow> (nat \<times> 'n) list" where
  "producer_step pr ds b = (\<lambda>(k, dv) co.
     case map_of ds k of
       None \<Rightarrow> co
     | Some d \<Rightarrow> if producer_id pr = producer_id (producer d) then terms_step dv b co else co)"

definition producer_row ::
  "(string \<times> 'n Delivery) list \<Rightarrow> (string \<times> (nat \<times> nat) list) list \<Rightarrow> 'n Producer \<Rightarrow> nat \<Rightarrow>
   ('n::{zero,one}) Constraint" where
  "producer_row ds vars pr b =
     \<lparr>con_lb = 0, con_ub = max_supply pr, coefficients = fold (producer_step pr ds b) vars []\<rparr>"

text \<open>The constraints of a built model as triples: lower bound, upper bound, terms.\<close>

definition rows :: "'n Built \<Rightarrow> ('n \<times> 'n \<times> (nat \<times> 'n) list) list" where
  "rows st = map (\<lambda>c. (con_lb c, con_ub c, coefficients c)) (solver_constraints (solver st))"

text \<open>
  The schedule in closed form: the record that a variable with a positive value gives,
  the records of one entry of the dictionary of variables, and one step of the running
  total.
\<close>

definition record_of ::
  "'n Delivery \<Rightarrow> 'n TimeBlock list \<Rightarrow> (nat \<Rightarrow> 'n) \<Rightarrow> nat \<times> nat \<Rightarrow> 'n DeliveryRecord" where
  "record_of delivery blocks solution_value = (\<lambda>(block_number, variable).
     \<lparr>time_block = block_number,
      producer_of = producer_id (producer delivery),
      consumer_of = consumer_id (consumer delivery),
      units_to_supply = solution_value variable,
      unit_price = price (blocks ! block_number)\<rparr>)"

definition records_of_delivery ::
  "(string \<times> 'n Delivery) list \<Rightarrow> 'n TimeBlock list \<Rightarrow> (nat \<Rightarrow> ('n::{zero,ord})) \<Rightarrow>
   string \<times> (nat \<times> nat) list \<Rightarrow> 'n DeliveryRecord list" where
  "records_of_delivery ds blocks solution_value = (\<lambda>(key, delivery_vars).
     case map_of ds key of
       None \<Rightarrow> []
     | Some delivery \<Rightarrow>
         map (record_of delivery blocks solution_value)
           (filter (\<lambda>(block_number, variable). 0 < solution_value variable) delivery_vars))"

definition add_price :: "('n::{plus,times}) \<Rightarrow> 'n DeliveryRecord \<Rightarrow> 'n" where
  "add_price acc r = acc + units_to_supply r * unit_price r"

text \<open>The three result messages of a schedule.\<close>

definition optimal_message :: string where
  "optimal_message = ''Optimal solution found''"

definition feasible_message :: string where
  "feasible_message = ''A potentially suboptimal solution was found.''"

definition unsolved_message :: string where
  "unsolved_message = ''The solver could not solve the problem.''"

text \<open>
  A scenario of one hour in two blocks of 30 minutes, priced 2. Consumer \<open>co1\<close> needs 2
  units before the end of the hour, from producer \<open>cp1\<close>; consumer \<open>ev2\<close> needs 1 unit
  and leaves after the first half hour, from producer \<open>cp2\<close>; a producer supplies at most
  1 unit in a block. The constraints leave one solution, 1 unit for each of the three
  variables, which \<open>solver_ones\<close> reports as optimal; \<open>solver_infeasible\<close> is a solver
  that finds the problem infeasible. In \<open>shared_consumer\<close> the consumer \<open>co1\<close> has a
  delivery with each of the two producers.
\<close>

definition consumer_1 :: "int Consumer" where
  "consumer_1 = \<lparr>consumer_id = ''co1'', required_units = 2,
                   departure_date = initial_date_t + minutes 60\<rparr>"

definition consumer_2 :: "int Consumer" where
  "consumer_2 = \<lparr>consumer_id = ''ev2'', required_units = 1,
                   departure_date = initial_date_t + minutes 30\<rparr>"

definition producer_1 :: "int Producer" where
  "producer_1 = \<lparr>producer_ref = 1, producer_id = ''cp1'', max_supply = 1\<rparr>"

definition producer_2 :: "int Producer" where
  "producer_2 = \<lparr>producer_ref = 2, producer_id = ''cp2'', max_supply = 1\<rparr>"

definition half_hours :: "int Algorithm" where
  "half_hours =
     projr (with_unit_price
              (with_blocks_per_hour
                 (with_hours (with_initial_date (Algorithm_init ''half hours'' 0) initial_date_t) 1)
                 2)
              (Some initial_date_t) (Some (initial_date_t + minutes 60)) None 2)"

definition scenario :: "int Algorithm" where
  "scenario =
     with_delivery (with_delivery half_hours consumer_1 producer_1) consumer_2 producer_2"

definition shared_consumer :: "int Algorithm" where
  "shared_consumer =
     with_delivery (with_delivery half_hours consumer_1 producer_1) consumer_1 producer_2"

definition solver_ones :: "int Solver \<Rightarrow> status \<times> (nat \<Rightarrow> int)" where
  "solver_ones s = (OPTIMAL, \<lambda>v. 1)"

definition solver_infeasible :: "int Solver \<Rightarrow> status \<times> (nat \<Rightarrow> int)" where
  "solver_infeasible s = (INFEASIBLE, \<lambda>v. 0)"

definition scenario_built :: "int Built" where
  "scenario_built = fst (projr (solve solver_ones scenario))"

definition scenario_schedule :: "int Schedule" where
  "scenario_schedule = snd (projr (solve solver_ones scenario))"

text \<open>
  A price rule without a block number whose interval ends an hour before it starts, and
  a consumer whose id has a comma in it.
\<close>

definition inverted_rule :: "int UnitPrice" where
  "inverted_rule =
     \<lparr>up_date_from = Some (initial_date_t + minutes 60), up_date_until = Some initial_date_t,
      up_block_number = None, up_price = 3\<rparr>"






section \<open>Properties\<close>

lemma get_price_find:
  "get_price_for_date_or_number rules d n =
     (case find (\<lambda>r. rule_matches r d n) rules of None \<Rightarrow> 0 | Some r \<Rightarrow> up_price r)"
  by (induction rules) (auto simp: rule_matches_def split: option.splits)

lemma ceil_aligned:
  fixes dt delta :: int
  shows "(dt + (- dt) mod delta) mod delta = 0"
proof -
  have "(dt + (- dt) mod delta) mod delta = (dt + (- dt)) mod delta"
    by (rule mod_add_right_eq)
  then show ?thesis by simp
qed

lemma map_enumerate_upt:
  "map (\<lambda>(n, t). g n t) (enumerate 0 (map f [0..<N])) = map (\<lambda>k. g k (f k)) [0..<N]"
  by (rule nth_equalityI) (simp_all add: nth_enumerate_eq)

lemma start_whole_seconds:
  fixes d w :: int
  shows "(d + (- d) mod minutes w) mod 1000000 = 0"
proof -
  have "minutes w dvd d + (- d) mod minutes w"
    using ceil_aligned [of d "minutes w"] by (simp add: dvd_eq_mod_eq_0)
  moreover have "1000000 dvd minutes w"
    by (simp add: minutes_def)
  ultimately have "1000000 dvd d + (- d) mod minutes w"
    by (rule dvd_trans [rotated])
  then show ?thesis by (simp add: dvd_eq_mod_eq_0)
qed

lemma make_blocks_price:
  assumes "make_blocks w rules xs = Inr bs" and "b \<in> set bs"
  shows "price b = get_price_for_date_or_number rules (date_from b) (number b)"
  using assms
proof (induction xs arbitrary: bs)
  case Nil
  then show ?case by simp
next
  case (Cons x xs)
  obtain n t where x: "x = (n, t)"
    by (cases x)
  from Cons.prems(1) obtain u bs' where u: "add_timedelta t (minutes w) = Inr u"
    and bs': "make_blocks w rules xs = Inr bs'"
    and bs: "bs = \<lparr>number = n, date_from = t, date_until = u,
                    price = get_price_for_date_or_number rules t n\<rparr> # bs'"
    by (auto simp: x split: sum.splits)
  from Cons.prems(2) consider "b = \<lparr>number = n, date_from = t, date_until = u,
                    price = get_price_for_date_or_number rules t n\<rparr>" | "b \<in> set bs'"
    unfolding bs by auto
  then show ?case
  proof cases
    case 1
    then show ?thesis by simp
  next
    case 2
    with Cons.IH [OF bs'] show ?thesis by simp
  qed
qed

lemma make_blocks_in_calendar:
  assumes "\<forall>(n, t) \<in> set xs. 0 \<le> t + minutes w \<and> t + minutes w \<le> datetime_max"
  shows "make_blocks w rules xs =
           Inr (map (\<lambda>(n, t). \<lparr>number = n, date_from = t, date_until = t + minutes w,
                                price = get_price_for_date_or_number rules t n\<rparr>) xs)"
  using assms
proof (induction xs)
  case Nil
  then show ?case by simp
next
  case (Cons x xs)
  obtain n t where x: "x = (n, t)"
    by (cases x)
  have "add_timedelta t (minutes w) = Inr (t + minutes w)"
    using Cons.prems by (simp add: x add_timedelta_def)
  moreover have "make_blocks w rules xs =
           Inr (map (\<lambda>(n, t). \<lparr>number = n, date_from = t, date_until = t + minutes w,
                                price = get_price_for_date_or_number rules t n\<rparr>) xs)"
    using Cons.prems by (intro Cons.IH) simp
  ultimately show ?case
    by (simp add: x)
qed

lemma period_to_blocks_closed:
  assumes "0 < bph" "bph \<le> 60" "0 < h" "0 \<le> d"
    and "d + (- d) mod minutes (60 div bph) + minutes (bph * h * (60 div bph)) \<le> datetime_max"
  shows "period_to_blocks bph h d rules =
           Inr (map (block_at (60 div bph) (d + (- d) mod minutes (60 div bph)) rules)
                    [0..<nat (bph * h)])"
proof -
  define w where "w = 60 div bph"
  define s where "s = d + (- d) mod minutes w"
  define N where "N = nat (bph * h)"
  define f where "f = (\<lambda>k. s + minutes (int k * w))"
  have w: "0 < w"
    using assms(1,2) by (simp add: w_def pos_imp_zdiv_pos_iff)
  then have W: "0 < minutes w"
    by (simp add: minutes_def)
  have s: "d \<le> s"
    unfolding s_def using W by simp
  have N: "int N = bph * h"
    using assms(1,3) by (simp add: N_def)
  have top: "s + minutes (int N * w) \<le> datetime_max"
    using assms(5) by (simp add: s_def w_def N mult.assoc mult.left_commute mult.commute)
  have step: "f k + minutes w \<le> datetime_max" "0 \<le> f k" "f k \<le> datetime_max" if "k < N" for k
  proof -
    have "int k + 1 \<le> int N"
      using that by simp
    then have "(int k + 1) * w \<le> int N * w"
      using w by (simp only: mult_right_mono less_imp_le)
    then have "minutes (int k * w) + minutes w \<le> minutes (int N * w)"
      by (simp add: minutes_def algebra_simps)
    with top show "f k + minutes w \<le> datetime_max"
      by (simp add: f_def)
    have "0 \<le> minutes (int k * w)"
      using w by (simp add: minutes_def)
    with s assms(4) show "0 \<le> f k"
      by (simp add: f_def)
    from \<open>f k + minutes w \<le> datetime_max\<close> W show "f k \<le> datetime_max"
      by simp
  qed
  have "s \<le> datetime_max"
  proof -
    have "0 \<le> minutes (int N * w)"
      using w by (simp add: minutes_def)
    with top show ?thesis by simp
  qed
  then have "\<not> datetime_max < d + (- d) mod minutes w"
    by (simp add: s_def)
  moreover have "\<not> d + (- d) mod minutes w < 0"
    using s assms(4) by (simp add: s_def)
  ultimately have ceil: "ceil_dt d (minutes w) = Inr s"
    using W by (simp add: ceil_dt_def add_timedelta_def s_def)
  have "s mod 1000000 = 0"
    unfolding s_def by (rule start_whole_seconds)
  then have "map (\<lambda>k. (s - s mod 1000000) + minutes (int k * w)) [0..<N] = map f [0..<N]"
    by (simp add: f_def)
  moreover have "\<forall>t \<in> set (map f [0..<N]). t \<le> datetime_max"
    using step(3) by simp
  ultimately have "rrule_minutely w s (bph * h) = map f [0..<N]"
    unfolding rrule_minutely_def N_def [symmetric] by (simp only: takeWhile_eq_all_conv)
  moreover have "make_blocks w rules (enumerate 0 (map f [0..<N])) =
      Inr (map (\<lambda>(n, t). \<lparr>number = n, date_from = t, date_until = t + minutes w,
                                price = get_price_for_date_or_number rules t n\<rparr>)
             (enumerate 0 (map f [0..<N])))"
  proof (rule make_blocks_in_calendar, clarify)
    fix n t assume "(n, t) \<in> set (enumerate 0 (map f [0..<N]))"
    then have "n < N" "t = f n"
      by (auto simp: in_set_enumerate_eq)
    with step [of n] W show "0 \<le> t + minutes w \<and> t + minutes w \<le> datetime_max"
      by simp
  qed
  moreover have "map (\<lambda>(n, t). \<lparr>number = n, date_from = t, date_until = t + minutes w,
                                price = get_price_for_date_or_number rules t n\<rparr>)
             (enumerate 0 (map f [0..<N])) = map (block_at w s rules) [0..<N]"
    unfolding map_enumerate_upt by (simp add: block_at_def [abs_def] f_def)
  ultimately show ?thesis
    using assms(1,3) ceil
    by (simp add: period_to_blocks_def Let_def w_def [symmetric] s_def [symmetric]
        N_def [symmetric])
qed

lemma period_to_blocks_too_many:
  assumes "60 < bph" "0 < h"
  shows "period_to_blocks bph h d rules = Inl ZeroDivisionError"
  using assms
  by (simp add: period_to_blocks_def ceil_dt_def minutes_def Let_def div_pos_pos_trivial)

lemma covered_blocks:
  assumes "0 < N"
  shows "covered (map (block_at w s rules) [0..<N]) = minutes (int N * w)"
proof -
  obtain M where N: "N = Suc M"
    using assms by (cases N) auto
  have l: "last (map (block_at w s rules) [0..<N]) = block_at w s rules M"
    unfolding N by (simp add: last_map)
  have h: "hd (map (block_at w s rules) [0..<N]) = block_at w s rules 0"
    using assms by (simp add: hd_map)
  have "map (block_at w s rules) [0..<N] \<noteq> []"
    using assms by simp
  then have "covered (map (block_at w s rules) [0..<N]) =
      date_until (block_at w s rules M) - date_from (block_at w s rules 0)"
    unfolding covered_def l h by simp
  then show ?thesis
    by (simp add: N block_at_def minutes_def algebra_simps)
qed

subsection \<open>C7: the price of a block\<close>

text \<open>
  Claim C7. For every time block and every list of price rules, the resolved price of the
  block is the price of the first rule, in registration order, that matches it: a rule
  matches by its explicit block number equal to the number of the block or, when it has
  both dates, by \<open>date_from \<le> block start < date_until\<close>; the price is 0 when no rule
  matches. \<open>find\<close> gives the first element of a list that satisfies a predicate. The
  first conjunct is the price function itself, the second the price of every block that
  \<open>period_to_blocks\<close> returns.
\<close>

theorem price_is_first_matching_rule:
  "get_price_for_date_or_number rules d n =
     (case find (\<lambda>r. rule_matches r d n) rules of None \<Rightarrow> 0 | Some r \<Rightarrow> up_price r)
   \<and> (\<forall>blocks. period_to_blocks bph h d0 rules = Inr blocks \<longrightarrow>
        (\<forall>b \<in> set blocks.
           price b = (case find (\<lambda>r. rule_matches r (date_from b) (number b)) rules of
                        None \<Rightarrow> 0 | Some r \<Rightarrow> up_price r)))"
proof (intro conjI allI impI ballI)
  show "get_price_for_date_or_number rules d n =
     (case find (\<lambda>r. rule_matches r d n) rules of None \<Rightarrow> 0 | Some r \<Rightarrow> up_price r)"
    by (rule get_price_find)
next
  fix blocks b
  assume eq: "period_to_blocks bph h d0 rules = Inr blocks" and b: "b \<in> set blocks"
  from eq obtain w times where "make_blocks w rules times = Inr blocks"
    by (auto simp: period_to_blocks_def Let_def split: if_splits sum.splits)
  from make_blocks_price [OF this b]
  have "price b = get_price_for_date_or_number rules (date_from b) (number b)" .
  then show "price b = (case find (\<lambda>r. rule_matches r (date_from b) (number b)) rules of
                        None \<Rightarrow> 0 | Some r \<Rightarrow> up_price r)"
    by (simp add: get_price_find)
qed

theorem price_is_first_matching_rule_witness:
  "map_sum id (map price) (period_to_blocks 4 2 initial_date_t unit_prices_t)
     = Inr [2, 2, 2, 2, 1, 1, 1, 1]
   \<and> get_price_for_date_or_number unit_prices_t (initial_date_t + minutes 75) 5 = 1
   \<and> find (\<lambda>r. rule_matches r (initial_date_t + minutes 75) 5) unit_prices_t
       = Some (unit_prices_t ! 1)"
proof -
  have c: "map_sum id (map price) (period_to_blocks 4 2 initial_date_t unit_prices_t)
     = Inr [2, 2, 2, 2, 1, 1, 1, 1]"
    "find (\<lambda>r. rule_matches r (initial_date_t + minutes 75) 5) unit_prices_t
       = Some (unit_prices_t ! 1)"
    "up_price (unit_prices_t ! 1) = 1"
    by code_simp+
  from price_is_first_matching_rule [of unit_prices_t "initial_date_t + minutes 75" 5]
  have "get_price_for_date_or_number unit_prices_t (initial_date_t + minutes 75) 5 =
      (case find (\<lambda>r. rule_matches r (initial_date_t + minutes 75) 5) unit_prices_t of
         None \<Rightarrow> 0 | Some r \<Rightarrow> up_price r)"
    by blast
  also have "\<dots> = up_price (unit_prices_t ! 1)"
    by (simp only: c(2) option.case)
  also have "\<dots> = 1"
    by (rule c(3))
  finally show ?thesis
    using c(1,2) by blast
qed

lemma ceil_fixed:
  fixes dt delta :: int
  assumes "delta dvd dt"
  shows "dt + (- dt) mod delta = dt"
  using assms by (simp add: dvd_eq_mod_eq_0 [symmetric])

lemma whole_hours_iff:
  fixes bph h :: int
  assumes "0 < bph" "0 < h"
  shows "minutes (bph * h * (60 div bph)) = minutes (60 * h) \<longleftrightarrow> bph dvd 60"
proof -
  have e: "bph * (60 div bph) = 60 - 60 mod bph"
    by (simp add: minus_mod_eq_mult_div [symmetric])
  have "minutes (bph * h * (60 div bph)) = minutes (60 * h)
      \<longleftrightarrow> h * (bph * (60 div bph)) = h * 60"
    by (simp add: minutes_def ac_simps)
  also have "\<dots> \<longleftrightarrow> bph * (60 div bph) = 60"
    using assms(2) by simp
  also have "\<dots> \<longleftrightarrow> 60 mod bph = 0"
    unfolding e by arith
  also have "\<dots> \<longleftrightarrow> bph dvd 60"
    by (simp add: dvd_eq_mod_eq_0)
  finally show ?thesis .
qed

subsection \<open>C4: the partition into time blocks\<close>

text \<open>
  What the partitioner does when the number of blocks per hour is from 1 to 60 and the
  horizon ends inside the calendar: it returns \<open>blocks_per_hour * hours\<close> blocks, numbered
  from 0, each \<open>60 div blocks_per_hour\<close> minutes wide, each ending where the next one
  starts, the first one starting at the initial date rounded up to the next multiple of
  the width (counted from \<^verbatim>\<open>datetime.min\<close>; an initial date on a boundary is kept).
  The blocks cover the horizon of \<open>hours\<close> hours exactly when \<open>blocks_per_hour\<close> divides
  60.
\<close>

lemma period_to_blocks_in_calendar:
  assumes "0 < bph" and "0 < h" and le: "bph \<le> 60" and "0 \<le> d"
    and "d + (- d) mod minutes (60 div bph) + minutes (bph * h * (60 div bph)) \<le> datetime_max"
  shows "(\<exists>blocks. period_to_blocks bph h d rules = Inr blocks
             \<and> int (length blocks) = bph * h
             \<and> (\<forall>i < length blocks.
                   number (blocks ! i) = i
                   \<and> date_until (blocks ! i) = date_from (blocks ! i) + minutes (60 div bph))
             \<and> (\<forall>i. Suc i < length blocks \<longrightarrow>
                   date_until (blocks ! i) = date_from (blocks ! Suc i))
             \<and> minutes (60 div bph) dvd date_from (blocks ! 0)
             \<and> d \<le> date_from (blocks ! 0)
             \<and> date_from (blocks ! 0) < d + minutes (60 div bph)
             \<and> (minutes (60 div bph) dvd d \<longrightarrow> date_from (blocks ! 0) = d)
             \<and> covered blocks = minutes (bph * h * (60 div bph))
             \<and> (covered blocks = minutes (60 * h) \<longleftrightarrow> bph dvd 60))"
proof -
  define w where "w = 60 div bph"
  define s where "s = d + (- d) mod minutes w"
  define N where "N = nat (bph * h)"
  define blocks where "blocks = map (block_at w s rules) [0..<N]"
  have w: "0 < minutes w"
    using assms(1) le by (simp add: w_def minutes_def pos_imp_zdiv_pos_iff)
  have N: "0 < N" "int N = bph * h"
    using assms(1,2) by (simp_all add: N_def)
  have eq: "period_to_blocks bph h d rules = Inr blocks"
    unfolding blocks_def w_def s_def N_def using assms by (intro period_to_blocks_closed)
  have len: "length blocks = N"
    by (simp add: blocks_def)
  have nth: "blocks ! i = block_at w s rules i" if "i < N" for i
    using that by (simp add: blocks_def)
  have p1: "\<forall>i < length blocks.
      number (blocks ! i) = i \<and> date_until (blocks ! i) = date_from (blocks ! i) + minutes w"
    by (simp add: len nth block_at_def)
  have p2: "\<forall>i. Suc i < length blocks \<longrightarrow> date_until (blocks ! i) = date_from (blocks ! Suc i)"
    by (simp add: len nth block_at_def minutes_def algebra_simps)
  have first: "date_from (blocks ! 0) = s"
    using N(1) by (simp add: nth block_at_def minutes_def)
  have p3: "minutes w dvd date_from (blocks ! 0)"
    unfolding first s_def using ceil_aligned [of d "minutes w"] by (simp add: dvd_eq_mod_eq_0)
  have p4: "d \<le> date_from (blocks ! 0)" "date_from (blocks ! 0) < d + minutes w"
    unfolding first s_def using w by simp_all
  have p5: "minutes w dvd d \<longrightarrow> date_from (blocks ! 0) = d"
    unfolding first s_def by (simp add: ceil_fixed)
  have p6: "covered blocks = minutes (bph * h * w)"
    unfolding blocks_def using covered_blocks [OF N(1), of w s rules] by (simp add: N(2))
  have p7: "covered blocks = minutes (60 * h) \<longleftrightarrow> bph dvd 60"
    unfolding p6 w_def using assms(1,2) by (rule whole_hours_iff)
  show ?thesis
    using eq len N(2) p1 p2 p3 p4 p5 p6 p7 unfolding w_def by blast
qed

text \<open>
  Claim C4. For every positive \<open>blocks_per_hour\<close> and \<open>hours\<close> the partitioner returns
  \<open>blocks_per_hour * hours\<close> blocks that cover exactly the horizon. The program asserts no
  more than \<open>blocks_per_hour > 0\<close> and then takes \<^verbatim>\<open>int(60 / blocks_per_hour)\<close> for the
  width in minutes, which loses the remainder. Evaluated at the initial date of the test
  suite: with 61 blocks per hour the width is 0 and \<^verbatim>\<open>ceil_dt\<close> raises
  \<^verbatim>\<open>ZeroDivisionError\<close>, so that no block is returned; with 7 blocks per hour and one
  hour the 7 blocks are 8 minutes wide and cover 56 minutes, less than the hour.
\<close>

theorem period_to_blocks_truncates:
  "period_to_blocks 61 1 initial_date_t unit_prices_t = Inl ZeroDivisionError
   \<and> map_sum id length (period_to_blocks 7 1 initial_date_t unit_prices_t) = Inr 7
   \<and> map_sum id covered (period_to_blocks 7 1 initial_date_t unit_prices_t) = Inr (minutes 56)
   \<and> minutes 56 < minutes (60 * 1)"
  by code_simp

subsection \<open>C9: configuration errors\<close>

lemma inverted_interval_never_matches:
  assumes "up_block_number r = None" and "up_date_from r = Some f" and "up_date_until r = Some u"
    and "u \<le> f"
  shows "\<not> rule_matches r d n"
  using assms by (simp add: rule_matches_def)

text \<open>
  Claim C9, amended. With zero or negative \<open>blocks_per_hour\<close> or \<open>hours\<close> the construction
  of the blocks fails at its first statements, before any block is made, and so does the
  solve of a configuration with such values; registering a price rule fails at once
  exactly when the rule has no block number and lacks one of its two dates. Both failures
  are the \<^verbatim>\<open>AssertionError\<close> of an \<^verbatim>\<open>assert\<close>, which is what the specification calls
  a configuration error. The two dates are only asked to be there: whether the first
  precedes the second is not looked at.
\<close>

theorem configuration_errors:
  "(bph \<le> 0 \<or> h \<le> 0 \<longrightarrow> period_to_blocks bph h d rules = Inl AssertionError)
   \<and> (blocks_per_hour a \<le> 0 \<or> hours a \<le> 0 \<longrightarrow> solve Solve a = Inl AssertionError)
   \<and> (with_unit_price a df du bn p = Inl AssertionError
        \<longleftrightarrow> bn = None \<and> (df = None \<or> du = None))"
  by (auto simp: period_to_blocks_def with_unit_price_def solve_def build_model_def
      prepare_data_def)

theorem configuration_errors_witness:
  "((0::int) \<le> 0 \<or> (24::int) \<le> 0)
   \<and> period_to_blocks 0 24 initial_date_t unit_prices_t = Inl AssertionError
   \<and> (blocks_per_hour (with_blocks_per_hour scenario 0) \<le> 0
        \<or> hours (with_blocks_per_hour scenario 0) \<le> 0)
   \<and> solve solver_ones (with_blocks_per_hour scenario 0) = Inl AssertionError
   \<and> with_unit_price (with_blocks_per_hour scenario 0) (Some initial_date_t) None None 2
       = Inl AssertionError"
  using configuration_errors [where bph = 0 and h = 24 and d = initial_date_t
      and rules = unit_prices_t and a = "with_blocks_per_hour scenario 0" and Solve = solver_ones
      and df = "Some initial_date_t" and du = None and bn = None and p = 2]
  by (simp add: with_blocks_per_hour_def)

text \<open>
  A rule without a block number whose interval is not a valid one, its end an hour before
  its start, is registered without an error. By its dates it matches no block.
\<close>

theorem configuration_errors_counterexample:
  "up_block_number inverted_rule = None
   \<and> up_date_from inverted_rule = Some (initial_date_t + minutes 60)
   \<and> up_date_until inverted_rule = Some initial_date_t
   \<and> initial_date_t < initial_date_t + minutes 60
   \<and> with_unit_price half_hours (up_date_from inverted_rule) (up_date_until inverted_rule)
         (up_block_number inverted_rule) (up_price inverted_rule)
       = Inr (half_hours\<lparr>unit_prices := unit_prices half_hours @ [inverted_rule]\<rparr>)"
  by code_simp

subsection \<open>C10: delivery identifiers\<close>






subsection \<open>The schedule in closed form\<close>

lemma extract_variable_Inr:
  assumes "extract_variable (producer d) (consumer d) blocks sol bv sch = Inr sch'"
  shows "sch' = sch\<lparr>total_price := foldl add_price (total_price sch)
                        (map (record_of d blocks sol) (filter (\<lambda>(b, v). 0 < sol v) [bv])),
                    schedule_deliveries := schedule_deliveries sch @
                        map (record_of d blocks sol) (filter (\<lambda>(b, v). 0 < sol v) [bv])\<rparr>"
  using assms
  by (cases bv)
     (auto simp: extract_variable_def Let_def record_of_def add_price_def split: if_splits)

lemma extract_variables_Inr:
  assumes "for_each (extract_variable (producer d) (consumer d) blocks sol) dv sch = Inr sch'"
  shows "sch' = sch\<lparr>total_price := foldl add_price (total_price sch)
                        (map (record_of d blocks sol) (filter (\<lambda>(b, v). 0 < sol v) dv)),
                    schedule_deliveries := schedule_deliveries sch @
                        map (record_of d blocks sol) (filter (\<lambda>(b, v). 0 < sol v) dv)\<rparr>"
  using assms
proof (induction dv arbitrary: sch)
  case Nil
  then show ?case by simp
next
  case (Cons bv dv)
  from Cons.prems obtain sch1 where
    s1: "extract_variable (producer d) (consumer d) blocks sol bv sch = Inr sch1"
    and s2: "for_each (extract_variable (producer d) (consumer d) blocks sol) dv sch1 = Inr sch'"
    by (auto split: sum.splits)
  show ?case
    unfolding Cons.IH [OF s2] extract_variable_Inr [OF s1]
    by (cases bv) simp
qed

lemma extract_deliveries_Inr:
  assumes "for_each (extract_delivery ds blocks sol) vars sch = Inr sch'"
  shows "sch' = sch\<lparr>total_price := foldl add_price (total_price sch)
                        (concat (map (records_of_delivery ds blocks sol) vars)),
                    schedule_deliveries := schedule_deliveries sch @
                        concat (map (records_of_delivery ds blocks sol) vars)\<rparr>"
  using assms
proof (induction vars arbitrary: sch)
  case Nil
  then show ?case by simp
next
  case (Cons kv vars)
  obtain k dv where kv: "kv = (k, dv)"
    by (cases kv)
  from Cons.prems obtain sch1 where
    s1: "extract_delivery ds blocks sol (k, dv) sch = Inr sch1"
    and s2: "for_each (extract_delivery ds blocks sol) vars sch1 = Inr sch'"
    by (auto simp: kv split: sum.splits)
  from s1 obtain d where d: "map_of ds k = Some d"
    and s3: "for_each (extract_variable (producer d) (consumer d) blocks sol) dv sch = Inr sch1"
    by (auto simp: extract_delivery_def split: option.splits)
  have r: "records_of_delivery ds blocks sol (k, dv) =
      map (record_of d blocks sol) (filter (\<lambda>(b, v). 0 < sol v) dv)"
    by (simp add: records_of_delivery_def d)
  show ?case
    unfolding Cons.IH [OF s2] extract_variables_Inr [OF s3] kv
    by (simp add: r)
qed

lemma Schedule_init_solved:
  assumes "Schedule_init nm st ds built sol = Inr sch" and "st = OPTIMAL \<or> st = FEASIBLE"
  shows "schedule_deliveries sch =
           concat (map (records_of_delivery ds (time_blocks built) sol) (variables built))"
    and "total_price sch = foldl add_price 0 (schedule_deliveries sch)"
    and "solved sch"
proof -
  define sch0 :: "'a Schedule" where "sch0 = \<lparr>schedule_name = nm,
                  total_price = 0,
                  schedule_deliveries = [],
                  solved = (st = OPTIMAL \<or> st = FEASIBLE),
                  result = (if st = OPTIMAL then ''Optimal solution found''
                            else if st = FEASIBLE
                            then ''A potentially suboptimal solution was found.''
                            else ''The solver could not solve the problem.'')\<rparr>"
  have "for_each (extract_delivery ds (time_blocks built) sol) (variables built) sch0 = Inr sch"
    using assms by (simp add: Schedule_init_def Let_def sch0_def split: if_splits)
  from extract_deliveries_Inr [OF this]
  show "schedule_deliveries sch =
           concat (map (records_of_delivery ds (time_blocks built) sol) (variables built))"
    and "total_price sch = foldl add_price 0 (schedule_deliveries sch)"
    and "solved sch"
    using assms(2) by (simp_all add: sch0_def)
qed

lemma Schedule_init_unsolved:
  assumes "st \<noteq> OPTIMAL" "st \<noteq> FEASIBLE"
  shows "Schedule_init nm st ds built sol =
           Inr \<lparr>schedule_name = nm, total_price = 0, schedule_deliveries = [],
                solved = False, result = unsolved_message\<rparr>"
  using assms by (simp add: Schedule_init_def unsolved_message_def)

lemma Schedule_init_flags:
  assumes "Schedule_init nm st ds built sol = Inr sch"
  shows "solved sch \<longleftrightarrow> st = OPTIMAL \<or> st = FEASIBLE"
    and "result sch = (if st = OPTIMAL then ''Optimal solution found''
                       else if st = FEASIBLE then ''A potentially suboptimal solution was found.''
                       else unsolved_message)"
proof -
  show "solved sch \<longleftrightarrow> st = OPTIMAL \<or> st = FEASIBLE"
  proof (cases "st = OPTIMAL \<or> st = FEASIBLE")
    case True
    with Schedule_init_solved(3) [OF assms] show ?thesis by simp
  next
    case False
    with assms Schedule_init_unsolved [of st nm ds built sol] show ?thesis by auto
  qed
  show "result sch = (if st = OPTIMAL then ''Optimal solution found''
                       else if st = FEASIBLE then ''A potentially suboptimal solution was found.''
                       else unsolved_message)"
  proof (cases "st = OPTIMAL \<or> st = FEASIBLE")
    case True
    define sch0 :: "'a Schedule" where "sch0 = \<lparr>schedule_name = nm,
                  total_price = 0,
                  schedule_deliveries = [],
                  solved = (st = OPTIMAL \<or> st = FEASIBLE),
                  result = (if st = OPTIMAL then ''Optimal solution found''
                            else if st = FEASIBLE
                            then ''A potentially suboptimal solution was found.''
                            else ''The solver could not solve the problem.'')\<rparr>"
    have "for_each (extract_delivery ds (time_blocks built) sol) (variables built) sch0 = Inr sch"
      using assms True by (simp add: Schedule_init_def Let_def sch0_def split: if_splits)
    from extract_deliveries_Inr [OF this] show ?thesis
      by (simp add: sch0_def unsolved_message_def)
  next
    case False
    with assms Schedule_init_unsolved [of st nm ds built sol] show ?thesis by auto
  qed
qed

subsection \<open>The model in closed form\<close>

lemma create_variable_feasible:
  assumes "map_of (variables st) (delivery_id d) = Some dv" and "feasible (time_blocks st) d b"
  shows "create_variable d b st =
           Inr (st\<lparr>solver := Objective_SetCoefficient (length (solver_variables (solver st)))
                                (price (time_blocks st ! b))
                                (snd (NumVar (Finite 0) Infinity
                                        (delivery_id d @ ''-'' @ str_nat (number (time_blocks st ! b)))
                                        (solver st))),
                   variables := AList.update (delivery_id d)
                                  (AList.update b (length (solver_variables (solver st))) dv)
                                  (variables st)\<rparr>)"
  using assms by (simp add: create_variable_def feasible_def Let_def NumVar_def)

lemma create_variable_handles:
  assumes dv: "map_of (variables st) (delivery_id d) = Some dv" and "b \<notin> set (map fst dv)"
    and ok: "handles_ok st" and run: "create_variable d b st = Inr st'"
  shows "handles_ok st'"
proof (cases "feasible (time_blocks st) d b")
  case False
  then have "st' = st"
    using run dv by (simp add: create_variable_def feasible_def Let_def)
  with ok show ?thesis by simp
next
  case True
  define v where "v = length (solver_variables (solver st))"
  have st': "variables st' = AList.update (delivery_id d) (AList.update b v dv) (variables st)"
    "length (solver_variables (solver st')) = Suc v"
    using run unfolding create_variable_feasible [OF dv True]
    by (auto simp: v_def NumVar_def Objective_SetCoefficient_def)
  have none: "variable_of st (delivery_id d) b = None"
    using assms(2) by (simp add: variable_of_def dv map_of_eq_None_iff)
  have vo: "variable_of st' k c =
      (if k = delivery_id d \<and> c = b then Some v else variable_of st k c)" for k c
    by (simp add: variable_of_def st'(1) update_conv' dv)
  have lt: "w < v" if "variable_of st k c = Some w" for k c w
    using ok that unfolding handles_ok_def v_def by blast
  have inj: "k = k' \<and> c = c'"
    if "variable_of st k c = Some w" "variable_of st k' c' = Some w" for k c k' c' w
    using ok that unfolding handles_ok_def by blast
  have sur: "\<exists>k c. variable_of st k c = Some w" if "w < v" for w
    using ok that unfolding handles_ok_def v_def by blast
  show ?thesis
    unfolding handles_ok_def
  proof (intro conjI allI impI)
    fix k c w assume "variable_of st' k c = Some w"
    then show "w < length (solver_variables (solver st'))"
      using lt [of k c w] by (auto simp: vo st'(2) split: if_splits)
  next
    fix k c k' c' w
    assume a: "variable_of st' k c = Some w \<and> variable_of st' k' c' = Some w"
    then show "k = k'" "c = c'"
      using lt [of k c w] lt [of k' c' w] inj [of k c w k' c']
      by (auto simp: vo split: if_splits)
  next
    fix w assume "w < length (solver_variables (solver st'))"
    then consider "w = v" | "w < v"
      unfolding st'(2) by linarith
    then show "\<exists>k c. variable_of st' k c = Some w"
    proof cases
      case 1
      then have "variable_of st' (delivery_id d) b = Some w"
        by (simp add: vo)
      then show ?thesis by blast
    next
      case 2
      from sur [OF this] obtain k c where kc: "variable_of st k c = Some w"
        by blast
      with none have "\<not> (k = delivery_id d \<and> c = b)"
        by auto
      with kc have "variable_of st' k c = Some w"
        by (auto simp: vo)
      then show ?thesis by blast
    qed
  qed
qed

lemma create_variable_step:
  assumes "map_of (variables st) (delivery_id d) = Some dv" and "b \<notin> set (map fst dv)"
  shows "\<exists>st'. create_variable d b st = Inr st' \<and> vars_grow d [b] st st'"
proof (cases "feasible (time_blocks st) d b")
  case False
  then show ?thesis
    using assms(1) by (simp add: create_variable_def feasible_def vars_grow_def Let_def)
next
  case True
  have key: "delivery_id d \<in> set (map fst (variables st))"
    using assms(1) by (metis map_of_eq_None_iff option.distinct(1) set_map)
  obtain st' where run: "create_variable d b st = Inr st'"
    using create_variable_feasible [OF assms(1) True] by blast
  have h: "handles_ok st \<longrightarrow> handles_ok st'"
    using create_variable_handles [OF assms _ run] by blast
  have st': "st' = st\<lparr>solver := Objective_SetCoefficient (length (solver_variables (solver st)))
                                (price (time_blocks st ! b))
                                (snd (NumVar (Finite 0) Infinity
                                        (delivery_id d @ ''-'' @ str_nat (number (time_blocks st ! b)))
                                        (solver st))),
                   variables := AList.update (delivery_id d)
                                  (AList.update b (length (solver_variables (solver st))) dv)
                                  (variables st)\<rparr>"
    using run unfolding create_variable_feasible [OF assms(1) True] by simp
  have 1: "time_blocks st' = time_blocks st"
    by (simp add: st')
  have 2: "map fst (variables st') = map fst (variables st)"
    using key by (simp add: st' update_keys)
  have 3: "\<forall>k. k \<noteq> delivery_id d \<longrightarrow> map_of (variables st') k = map_of (variables st) k"
    by (simp add: st' update_conv')
  have 4: "map_of (variables st') (delivery_id d) =
      Some (AList.update b (length (solver_variables (solver st))) dv)"
    by (simp add: st' update_conv')
  have 5: "map fst (AList.update b (length (solver_variables (solver st))) dv) =
      map fst dv @ filter (feasible (time_blocks st) d) [b]"
    using assms(2) True by (simp add: update_keys)
  have 6: "solver_constraints (solver st') = solver_constraints (solver st)"
    by (simp add: st' NumVar_def Objective_SetCoefficient_def)
  have 7: "var_bounds_ok (solver st) \<longrightarrow> var_bounds_ok (solver st')"
    by (simp add: st' NumVar_def Objective_SetCoefficient_def var_bounds_ok_def)
  have "time_blocks st' = time_blocks st
     \<and> map fst (variables st') = map fst (variables st)
     \<and> (\<forall>k. k \<noteq> delivery_id d \<longrightarrow> map_of (variables st') k = map_of (variables st) k)
     \<and> (\<exists>dv dv'. map_of (variables st) (delivery_id d) = Some dv
           \<and> map_of (variables st') (delivery_id d) = Some dv'
           \<and> map fst dv' = map fst dv @ filter (feasible (time_blocks st) d) [b])
     \<and> solver_constraints (solver st') = solver_constraints (solver st)
     \<and> (var_bounds_ok (solver st) \<longrightarrow> var_bounds_ok (solver st'))"
    using 1 2 3 4 5 6 7 assms(1) by blast
  with run h show ?thesis
    unfolding vars_grow_def by blast
qed

lemma vars_grow_trans:
  assumes "vars_grow d bs st st1" and "vars_grow d bs' st1 st2"
  shows "vars_grow d (bs @ bs') st st2"
  using assms unfolding vars_grow_def by auto

lemma vars_grow_refl:
  assumes "map_of (variables st) (delivery_id d) = Some dv"
  shows "vars_grow d [] st st"
  using assms by (simp add: vars_grow_def)

lemma create_variables_of_delivery:
  assumes "map_of (variables st) (delivery_id d) = Some dv"
    and "distinct bs" and "set bs \<inter> set (map fst dv) = {}"
  shows "\<exists>st'. for_each (create_variable d) bs st = Inr st' \<and> vars_grow d bs st st'"
  using assms
proof (induction bs arbitrary: st dv)
  case Nil
  then show ?case by (simp add: vars_grow_refl)
next
  case (Cons b bs)
  have "b \<notin> set (map fst dv)"
    using Cons.prems(3) by auto
  from create_variable_step [OF Cons.prems(1) this] obtain st1
    where st1: "create_variable d b st = Inr st1" "vars_grow d [b] st st1"
    by blast
  from st1(2) Cons.prems(1) obtain dv1 where dv1: "map_of (variables st1) (delivery_id d) = Some dv1"
    "map fst dv1 = map fst dv @ filter (feasible (time_blocks st) d) [b]"
    unfolding vars_grow_def by auto
  have "set bs \<inter> set (map fst dv1) = {}"
    using Cons.prems(2,3) unfolding dv1(2) by auto
  from Cons.IH [OF dv1(1) _ this] Cons.prems(2) obtain st2
    where st2: "for_each (create_variable d) bs st1 = Inr st2" "vars_grow d bs st1 st2"
    by auto
  from vars_grow_trans [OF st1(2) st2(2)] st1(1) st2(1) show ?case
    by simp
qed

lemma create_variables_loop:
  assumes "distinct (map fst ds)" and "list_all (\<lambda>(k, d). k = delivery_id d) ds"
    and "\<forall>k \<in> set (map fst ds). map_of (variables st) k = Some []"
  shows "\<exists>st'. for_each (\<lambda>(key, delivery). for_each (create_variable delivery) [0..<n]) ds st = Inr st'
           \<and> time_blocks st' = time_blocks st
           \<and> map fst (variables st') = map fst (variables st)
           \<and> (\<forall>k. k \<notin> set (map fst ds) \<longrightarrow> map_of (variables st') k = map_of (variables st) k)
           \<and> (\<forall>(k, d) \<in> set ds. \<exists>dv. map_of (variables st') k = Some dv
                  \<and> map fst dv = filter (feasible (time_blocks st) d) [0..<n])
           \<and> solver_constraints (solver st') = solver_constraints (solver st)
           \<and> (var_bounds_ok (solver st) \<longrightarrow> var_bounds_ok (solver st'))
           \<and> (handles_ok st \<longrightarrow> handles_ok st')"
  using assms
proof (induction ds arbitrary: st)
  case Nil
  then show ?case by simp
next
  case (Cons kd ds)
  obtain k d where kd: "kd = (k, d)"
    by (cases kd)
  have k: "k = delivery_id d" "k \<notin> set (map fst ds)" "distinct (map fst ds)"
    "list_all (\<lambda>(k, d). k = delivery_id d) ds"
    using Cons.prems(1,2) by (simp_all add: kd)
  have "map_of (variables st) (delivery_id d) = Some []"
    using Cons.prems(3) by (simp add: kd k(1))
  from create_variables_of_delivery [OF this, of "[0..<n]"] obtain st1
    where st1: "for_each (create_variable d) [0..<n] st = Inr st1" "vars_grow d [0..<n] st st1"
    by auto
  have g: "time_blocks st1 = time_blocks st" "map fst (variables st1) = map fst (variables st)"
    "\<And>k'. k' \<noteq> k \<Longrightarrow> map_of (variables st1) k' = map_of (variables st) k'"
    "solver_constraints (solver st1) = solver_constraints (solver st)"
    "var_bounds_ok (solver st) \<longrightarrow> var_bounds_ok (solver st1)"
    "handles_ok st \<longrightarrow> handles_ok st1"
    using st1(2) unfolding vars_grow_def k(1) by simp_all
  obtain dv where dv: "map_of (variables st1) k = Some dv"
    "map fst dv = filter (feasible (time_blocks st) d) [0..<n]"
    using st1(2) \<open>map_of (variables st) (delivery_id d) = Some []\<close>
    unfolding vars_grow_def k(1) by auto
  have "\<forall>k' \<in> set (map fst ds). map_of (variables st1) k' = Some []"
  proof
    fix k' assume k': "k' \<in> set (map fst ds)"
    then have "k' \<noteq> k"
      using k(2) by auto
    then have "map_of (variables st1) k' = map_of (variables st) k'"
      by (rule g(3))
    also have "\<dots> = Some []"
      using Cons.prems(3) k' by (auto simp: kd)
    finally show "map_of (variables st1) k' = Some []" .
  qed
  from Cons.IH [OF k(3,4) this] obtain st2
    where st2: "for_each (\<lambda>(key, delivery). for_each (create_variable delivery) [0..<n]) ds st1 = Inr st2"
      "time_blocks st2 = time_blocks st1"
      "map fst (variables st2) = map fst (variables st1)"
      "\<And>k'. k' \<notin> set (map fst ds) \<Longrightarrow> map_of (variables st2) k' = map_of (variables st1) k'"
      "\<forall>(k, d) \<in> set ds. \<exists>dv. map_of (variables st2) k = Some dv
                  \<and> map fst dv = filter (feasible (time_blocks st1) d) [0..<n]"
      "solver_constraints (solver st2) = solver_constraints (solver st1)"
      "var_bounds_ok (solver st1) \<longrightarrow> var_bounds_ok (solver st2)"
      "handles_ok st1 \<longrightarrow> handles_ok st2"
    by blast
  have run: "for_each (\<lambda>(key, delivery). for_each (create_variable delivery) [0..<n]) (kd # ds) st = Inr st2"
    using st1(1) st2(1) by (simp add: kd)
  have here: "\<exists>dv. map_of (variables st2) k = Some dv
                  \<and> map fst dv = filter (feasible (time_blocks st) d) [0..<n]"
    using st2(4) [OF k(2)] dv by simp
  have others: "\<forall>k'. k' \<notin> set (map fst (kd # ds)) \<longrightarrow> map_of (variables st2) k' = map_of (variables st) k'"
    using st2(4) g(3) by (simp add: kd)
  show ?case
    using run here others st2(2,3,5,6,7,8) g(1,2,4,5,6)
    by (simp add: kd)
qed

lemma consumer_coefficients_loop:
  assumes "map_of vars (delivery_id d) = Some dv"
    and "map_of cc (consumer_id (consumer d)) = Some c"
    and "c < length (solver_constraints s)"
  shows "for_each (consumer_coefficient d vars) bs (s, cc) =
           Inr (s\<lparr>solver_constraints := (solver_constraints s)
                    [c := (solver_constraints s ! c)
                       \<lparr>coefficients := fold (terms_step dv) bs
                                           (coefficients (solver_constraints s ! c))\<rparr>]\<rparr>, cc)"
  using assms(3)
proof (induction bs arbitrary: s)
  case Nil
  then show ?case by simp
next
  case (Cons b bs)
  show ?case
  proof (cases "map_of dv b")
    case None
    then have "consumer_coefficient d vars b (s, cc) = Inr (s, cc)"
      by (simp add: consumer_coefficient_def assms(1))
    then show ?thesis
      using Cons.IH [OF Cons.prems] None by (simp add: terms_step_def)
  next
    case (Some v)
    then have st: "consumer_coefficient d vars b (s, cc) = Inr (SetCoefficient c v 1 s, cc)"
      by (simp add: consumer_coefficient_def assms(1,2))
    have "c < length (solver_constraints (SetCoefficient c v 1 s))"
      using Cons.prems by (simp add: SetCoefficient_def)
    from Cons.IH [OF this] st Some Cons.prems show ?thesis
      by (simp add: terms_step_def SetCoefficient_def)
  qed
qed

lemma consumer_constraint_step:
  assumes "map_of vars (delivery_id d) = Some dv"
  shows "\<exists>cc'. consumer_constraint vars n (k, d) (s, cc) =
           Inr (s\<lparr>solver_constraints := solver_constraints s @ [consumer_row vars n (k, d)]\<rparr>, cc')"
proof -
  define s1 where "s1 = s\<lparr>solver_constraints := solver_constraints s @
           [\<lparr>con_lb = required_units (consumer d), con_ub = required_units (consumer d),
             coefficients = []\<rparr>]\<rparr>"
  define c where "c = length (solver_constraints s)"
  define cc1 where "cc1 = AList.update (consumer_id (consumer d)) c cc"
  have 1: "map_of cc1 (consumer_id (consumer d)) = Some c"
    by (simp add: cc1_def update_conv')
  have 2: "c < length (solver_constraints s1)"
    by (simp add: c_def s1_def)
  have "consumer_constraint vars n (k, d) (s, cc) =
      for_each (consumer_coefficient d vars) [0..<n] (s1, cc1)"
    by (simp add: consumer_constraint_def Constraint_def Let_def s1_def c_def cc1_def)
  also have "\<dots> = Inr (s\<lparr>solver_constraints := solver_constraints s @ [consumer_row vars n (k, d)]\<rparr>, cc1)"
    unfolding consumer_coefficients_loop [OF assms 1 2]
    by (simp add: s1_def c_def consumer_row_def assms)
  finally show ?thesis by blast
qed

lemma consumer_constraints_loop:
  assumes "\<forall>(k, d) \<in> set ds. map_of vars (delivery_id d) \<noteq> None"
  shows "\<exists>cc'. for_each (consumer_constraint vars n) ds (s, cc) =
           Inr (s\<lparr>solver_constraints := solver_constraints s @ map (consumer_row vars n) ds\<rparr>, cc')"
  using assms
proof (induction ds arbitrary: s cc)
  case Nil
  then show ?case by simp
next
  case (Cons kd ds)
  obtain k d where kd: "kd = (k, d)"
    by (cases kd)
  from Cons.prems obtain dv where "map_of vars (delivery_id d) = Some dv"
    by (auto simp: kd)
  from consumer_constraint_step [OF this, of n k s cc] obtain cc1 where
    1: "consumer_constraint vars n (k, d) (s, cc) =
           Inr (s\<lparr>solver_constraints := solver_constraints s @ [consumer_row vars n (k, d)]\<rparr>, cc1)"
    by blast
  from Cons.IH [of "s\<lparr>solver_constraints := solver_constraints s @ [consumer_row vars n (k, d)]\<rparr>" cc1]
    Cons.prems
  obtain cc2 where
    "for_each (consumer_constraint vars n) ds
       (s\<lparr>solver_constraints := solver_constraints s @ [consumer_row vars n (k, d)]\<rparr>, cc1) =
     Inr (s\<lparr>solver_constraints := solver_constraints s @ [consumer_row vars n (k, d)]
             @ map (consumer_row vars n) ds\<rparr>, cc2)"
    by auto
  with 1 show ?case
    by (simp add: kd)
qed

lemma producer_coefficients_loop:
  assumes "\<forall>(k, dv) \<in> set vs. map_of ds k \<noteq> None"
    and "c < length (solver_constraints s)"
  shows "for_each (producer_coefficient pr ds b c) vs s =
           Inr (s\<lparr>solver_constraints := (solver_constraints s)
                    [c := (solver_constraints s ! c)
                       \<lparr>coefficients := fold (producer_step pr ds b) vs
                                           (coefficients (solver_constraints s ! c))\<rparr>]\<rparr>)"
  using assms
proof (induction vs arbitrary: s)
  case Nil
  then show ?case by simp
next
  case (Cons kv vs)
  obtain k dv where kv: "kv = (k, dv)"
    by (cases kv)
  from Cons.prems(1) obtain d where d: "map_of ds k = Some d"
    by (auto simp: kv)
  have rest: "\<forall>(k, dv) \<in> set vs. map_of ds k \<noteq> None"
    using Cons.prems(1) by simp
  show ?case
  proof (cases "producer_id pr = producer_id (producer d) \<and> map_of dv b \<noteq> None")
    case False
    then have "producer_coefficient pr ds b c (k, dv) s = Inr s"
      and "producer_step pr ds b (k, dv) = (\<lambda>co. co)"
      by (auto simp: producer_coefficient_def producer_step_def terms_step_def d)
    then show ?thesis
      using Cons.IH [OF rest Cons.prems(2)] by (simp add: kv)
  next
    case True
    then obtain v where v: "map_of dv b = Some v"
      by auto
    have st: "producer_coefficient pr ds b c (k, dv) s = Inr (SetCoefficient c v 1 s)"
      and ps: "producer_step pr ds b (k, dv) = AList.update v 1"
      using True v by (auto simp: producer_coefficient_def producer_step_def terms_step_def d)
    have "c < length (solver_constraints (SetCoefficient c v 1 s))"
      using Cons.prems(2) by (simp add: SetCoefficient_def)
    from Cons.IH [OF rest this] st ps Cons.prems(2) show ?thesis
      by (simp add: kv SetCoefficient_def)
  qed
qed

lemma producer_constraint_step:
  assumes "\<forall>(k, dv) \<in> set vars. map_of ds k \<noteq> None"
  shows "producer_constraint ds vars pr b s =
           Inr (s\<lparr>solver_constraints := solver_constraints s @ [producer_row ds vars pr b]\<rparr>)"
proof -
  define s1 where "s1 = s\<lparr>solver_constraints := solver_constraints s @
           [\<lparr>con_lb = 0, con_ub = max_supply pr, coefficients = []\<rparr>]\<rparr>"
  have 2: "length (solver_constraints s) < length (solver_constraints s1)"
    by (simp add: s1_def)
  have "producer_constraint ds vars pr b s =
      for_each (producer_coefficient pr ds b (length (solver_constraints s))) vars s1"
    by (simp add: producer_constraint_def Constraint_def Let_def s1_def)
  also have "\<dots> = Inr (s\<lparr>solver_constraints := solver_constraints s @ [producer_row ds vars pr b]\<rparr>)"
    unfolding producer_coefficients_loop [OF assms 2]
    by (simp add: s1_def producer_row_def)
  finally show ?thesis .
qed

lemma producer_blocks_loop:
  assumes "\<forall>(k, dv) \<in> set vars. map_of ds k \<noteq> None"
  shows "for_each (producer_constraint ds vars pr) bs s =
           Inr (s\<lparr>solver_constraints := solver_constraints s @ map (producer_row ds vars pr) bs\<rparr>)"
proof (induction bs arbitrary: s)
  case Nil
  then show ?case by simp
next
  case (Cons b bs)
  have "for_each (producer_constraint ds vars pr) (b # bs) s =
      for_each (producer_constraint ds vars pr) bs
        (s\<lparr>solver_constraints := solver_constraints s @ [producer_row ds vars pr b]\<rparr>)"
    by (simp only: for_each.simps producer_constraint_step [OF assms] sum.case)
  then show ?case
    by (simp only: Cons.IH) simp
qed

lemma producers_loop:
  assumes "\<forall>(k, dv) \<in> set vars. map_of ds k \<noteq> None"
  shows "for_each (\<lambda>pr. for_each (producer_constraint ds vars pr) bs) prs s =
           Inr (s\<lparr>solver_constraints := solver_constraints s @
                    concat (map (\<lambda>pr. map (producer_row ds vars pr) bs) prs)\<rparr>)"
proof (induction prs arbitrary: s)
  case Nil
  then show ?case by simp
next
  case (Cons pr prs)
  have "for_each (\<lambda>pr. for_each (producer_constraint ds vars pr) bs) (pr # prs) s =
      for_each (\<lambda>pr. for_each (producer_constraint ds vars pr) bs) prs
        (s\<lparr>solver_constraints := solver_constraints s @ map (producer_row ds vars pr) bs\<rparr>)"
    by (simp only: for_each.simps producer_blocks_loop [OF assms] sum.case)
  then show ?case
    by (simp only: Cons.IH) simp
qed

lemma map_of_empty_vars_Some:
  "map_of (map (\<lambda>(key, delivery). (key, [])) ds) k = Some dv \<Longrightarrow> dv = []"
  by (induction ds) (auto split: if_splits)

lemma map_of_empty_vars:
  "\<forall>k \<in> set (map fst ds). map_of (map (\<lambda>(key, delivery). (key, [])) ds) k = Some []"
  by (induction ds) auto

lemma build_model_built:
  assumes reg: "registered (deliveries a)" and blocks: "prepare_data a = Inr blocks"
  shows "\<exists>st. build_model a = Inr st
           \<and> time_blocks st = blocks
           \<and> map fst (variables st) = map fst (deliveries a)
           \<and> (\<forall>(k, d) \<in> set (deliveries a). \<exists>dv. map_of (variables st) k = Some dv
                  \<and> map fst dv = filter (feasible blocks d) [0..<length blocks])
           \<and> var_bounds_ok (solver st)
           \<and> handles_ok st
           \<and> solver_constraints (solver st) =
               map (consumer_row (variables st) (length blocks)) (deliveries a) @
               concat (map (\<lambda>pr. map (producer_row (deliveries a) (variables st) pr)
                                    [0..<length blocks])
                         (get_producers (deliveries a)))"
proof -
  define ds where "ds = deliveries a"
  define n where "n = length blocks"
  define st0 :: "'a Built" where "st0 = \<lparr>time_blocks = blocks, solver = Solver_init,
                     variables = map (\<lambda>(key, delivery). (key, [])) ds\<rparr>"
  have r: "distinct (map fst ds)" "list_all (\<lambda>(k, d). k = delivery_id d) ds"
    using reg by (simp_all add: registered_def ds_def)
  have e: "\<forall>k \<in> set (map fst ds). map_of (variables st0) k = Some []"
    using map_of_empty_vars [of ds] by (simp add: st0_def)
  obtain st1 where
    st1: "for_each (\<lambda>(key, delivery). for_each (create_variable delivery) [0..<n]) ds st0 = Inr st1"
      "time_blocks st1 = blocks"
      "map fst (variables st1) = map fst ds"
      "\<forall>(k, d) \<in> set ds. \<exists>dv. map_of (variables st1) k = Some dv
                  \<and> map fst dv = filter (feasible blocks d) [0..<n]"
      "solver_constraints (solver st1) = []"
      "var_bounds_ok (solver st1)"
      "handles_ok st1"
  proof -
    have "variable_of st0 k b = None" for k b
    proof (cases "map_of (variables st0) k")
      case None
      then show ?thesis by (simp add: variable_of_def)
    next
      case (Some dv)
      then have "dv = []"
        using map_of_empty_vars_Some [of ds k dv] by (simp add: st0_def)
      with Some show ?thesis by (simp add: variable_of_def)
    qed
    then have "handles_ok st0"
      by (simp add: handles_ok_def st0_def Solver_init_def)
    moreover have "var_bounds_ok (solver st0)" "solver_constraints (solver st0) = []"
      "time_blocks st0 = blocks" "map fst (variables st0) = map fst ds"
      by (simp_all add: st0_def Solver_init_def var_bounds_ok_def comp_def case_prod_unfold)
    ultimately show ?thesis
      using create_variables_loop [OF r e, of n] that by force
  qed
  have A: "create_variables ds st0 = Inr st1"
    using st1(1) by (simp add: create_variables_def st0_def n_def)
  define st1m where "st1m = st1\<lparr>solver := SetMinimization (solver st1)\<rparr>"
  have m: "variables st1m = variables st1" "time_blocks st1m = blocks"
    "solver_constraints (solver st1m) = []" "var_bounds_ok (solver st1m)"
    using st1(2,5,6) by (simp_all add: st1m_def SetMinimization_def var_bounds_ok_def)
  have "map_of (variables st1) (delivery_id d) \<noteq> None" if kd: "(k, d) \<in> set ds" for k d
  proof -
    from r(2) kd have "k = delivery_id d"
      by (auto simp: list_all_iff)
    moreover from st1(4) kd obtain dv where "map_of (variables st1) k = Some dv"
      by auto
    ultimately show ?thesis
      by simp
  qed
  then have "\<forall>(k, d) \<in> set ds. map_of (variables st1) (delivery_id d) \<noteq> None"
    by blast
  from consumer_constraints_loop [OF this, of n "solver st1m" "[]"] obtain cc where
    "for_each (consumer_constraint (variables st1) n) ds (solver st1m, []) =
       Inr ((solver st1m)\<lparr>solver_constraints := solver_constraints (solver st1m) @
              map (consumer_row (variables st1) n) ds\<rparr>, cc)"
    by blast
  then have B: "consumer_constraints ds st1m =
      Inr (st1m\<lparr>solver := (solver st1m)\<lparr>solver_constraints :=
              map (consumer_row (variables st1) n) ds\<rparr>\<rparr>)"
    by (simp add: consumer_constraints_def m n_def)
  define st2 where "st2 = st1m\<lparr>solver := (solver st1m)\<lparr>solver_constraints :=
              map (consumer_row (variables st1) n) ds\<rparr>\<rparr>"
  have s2: "variables st2 = variables st1" "time_blocks st2 = blocks"
    "solver_constraints (solver st2) = map (consumer_row (variables st1) n) ds"
    "var_bounds_ok (solver st2)"
    "solver_variables (solver st2) = solver_variables (solver st1)"
    using m by (simp_all add: st2_def st1m_def SetMinimization_def var_bounds_ok_def)
  have "map_of ds k \<noteq> None" if "(k, dv) \<in> set (variables st1)" for k dv
  proof -
    from that have "k \<in> set (map fst (variables st1))"
      by force
    then have "k \<in> set (map fst ds)"
      by (simp add: st1(3))
    then show ?thesis
      by (simp add: map_of_eq_None_iff)
  qed
  then have "\<forall>(k, dv) \<in> set (variables st1). map_of ds k \<noteq> None"
    by blast
  from producers_loop [OF this, of "[0..<n]" "get_producers ds" "solver st2"]
  have C: "producer_constraints ds st2 =
      Inr (st2\<lparr>solver := (solver st2)\<lparr>solver_constraints :=
             map (consumer_row (variables st1) n) ds @
             concat (map (\<lambda>pr. map (producer_row ds (variables st1) pr) [0..<n])
                       (get_producers ds))\<rparr>\<rparr>)"
    by (simp add: producer_constraints_def s2 n_def)
  have "build_model a = Inr (st2\<lparr>solver := (solver st2)\<lparr>solver_constraints :=
             map (consumer_row (variables st1) n) ds @
             concat (map (\<lambda>pr. map (producer_row ds (variables st1) pr) [0..<n])
                       (get_producers ds))\<rparr>\<rparr>)"
    using A B C
    by (simp add: build_model_def blocks Let_def ds_def [symmetric] st0_def [symmetric]
        st1m_def [symmetric] st2_def [symmetric])
  moreover have "var_bounds_ok ((solver st2)\<lparr>solver_constraints :=
             map (consumer_row (variables st1) n) ds @
             concat (map (\<lambda>pr. map (producer_row ds (variables st1) pr) [0..<n])
                       (get_producers ds))\<rparr>)"
    using s2(4) by (simp add: var_bounds_ok_def)
  moreover have "handles_ok (st2\<lparr>solver := (solver st2)\<lparr>solver_constraints :=
             map (consumer_row (variables st1) n) ds @
             concat (map (\<lambda>pr. map (producer_row ds (variables st1) pr) [0..<n])
                       (get_producers ds))\<rparr>\<rparr>)"
    using st1(7) s2(1,5) by (simp add: handles_ok_def variable_of_def)
  ultimately show ?thesis
    using s2 st1(3,4) by (simp add: ds_def [symmetric] n_def [symmetric])
qed
lemma registered_init: "registered (deliveries (Algorithm_init nm now))"
  by (simp add: registered_def Algorithm_init_def)

lemma set_update_subset: "set (AList.update k v al) \<subseteq> insert (k, v) (set al)"
  by (induction al) auto

lemma registered_with_delivery:
  assumes "registered (deliveries a)"
  shows "registered (deliveries (with_delivery a c p))"
proof -
  have "list_all (\<lambda>(k, d). k = delivery_id d)
      (AList.update (delivery_id (Delivery_init c p)) (Delivery_init c p) (deliveries a))"
    using assms set_update_subset [of "delivery_id (Delivery_init c p)" "Delivery_init c p" "deliveries a"]
    unfolding registered_def list_all_iff by auto
  then show ?thesis
    using assms by (simp add: registered_def with_delivery_def Let_def distinct_update)
qed

lemma fold_terms_keys:
  "fst ` set (fold (terms_step dv) bs co) =
     fst ` set co \<union> {v. \<exists>b \<in> set bs. map_of dv b = Some v}"
proof (induction bs arbitrary: co)
  case Nil
  then show ?case by simp
next
  case (Cons b bs)
  have "fst ` set (terms_step dv b co) = fst ` set co \<union> {v. map_of dv b = Some v}"
    by (auto simp: terms_step_def dom_update split: option.splits)
  then show ?case
    by (auto simp: Cons.IH)
qed

lemma terms_step_ones:
  assumes "\<forall>x \<in> set co. snd x = 1"
  shows "\<forall>x \<in> set (terms_step dv b co). snd x = 1"
proof (cases "map_of dv b")
  case None
  with assms show ?thesis by (simp add: terms_step_def)
next
  case (Some v)
  then show ?thesis
    using assms set_update_subset [of v 1 co] by (auto simp: terms_step_def)
qed

lemma fold_terms_ones:
  assumes "\<forall>x \<in> set co. snd x = 1"
  shows "\<forall>x \<in> set (fold (terms_step dv) bs co). snd x = 1"
  using assms
proof (induction bs arbitrary: co)
  case Nil
  then show ?case by simp
next
  case (Cons b bs)
  from Cons.IH [OF terms_step_ones [OF Cons.prems]] show ?case
    by simp
qed



lemma build_model_prepared:
  assumes "build_model a = Inr st"
  obtains blocks where "prepare_data a = Inr blocks"
  using assms by (cases "prepare_data a") (auto simp: build_model_def)

lemma built_model:
  assumes reg: "registered (deliveries a)" and run: "build_model a = Inr st"
  shows "prepare_data a = Inr (time_blocks st)"
    and "map fst (variables st) = map fst (deliveries a)"
    and "\<forall>(k, d) \<in> set (deliveries a). \<exists>dv. map_of (variables st) k = Some dv
           \<and> map fst dv = filter (feasible (time_blocks st) d) [0..<length (time_blocks st)]"
    and "var_bounds_ok (solver st)"
    and "handles_ok st"
    and "solver_constraints (solver st) =
           map (consumer_row (variables st) (length (time_blocks st))) (deliveries a) @
           concat (map (\<lambda>pr. map (producer_row (deliveries a) (variables st) pr)
                                [0..<length (time_blocks st)])
                     (get_producers (deliveries a)))"
proof -
  from run obtain blocks where b: "prepare_data a = Inr blocks"
    by (rule build_model_prepared)
  from build_model_built [OF reg b] run
  have "time_blocks st = blocks
           \<and> map fst (variables st) = map fst (deliveries a)
           \<and> (\<forall>(k, d) \<in> set (deliveries a). \<exists>dv. map_of (variables st) k = Some dv
                  \<and> map fst dv = filter (feasible blocks d) [0..<length blocks])
           \<and> var_bounds_ok (solver st)
           \<and> handles_ok st
           \<and> solver_constraints (solver st) =
               map (consumer_row (variables st) (length blocks)) (deliveries a) @
               concat (map (\<lambda>pr. map (producer_row (deliveries a) (variables st) pr)
                                    [0..<length blocks])
                         (get_producers (deliveries a)))"
    by auto
  then show "prepare_data a = Inr (time_blocks st)"
    and "map fst (variables st) = map fst (deliveries a)"
    and "\<forall>(k, d) \<in> set (deliveries a). \<exists>dv. map_of (variables st) k = Some dv
           \<and> map fst dv = filter (feasible (time_blocks st) d) [0..<length (time_blocks st)]"
    and "var_bounds_ok (solver st)"
    and "handles_ok st"
    and "solver_constraints (solver st) =
           map (consumer_row (variables st) (length (time_blocks st))) (deliveries a) @
           concat (map (\<lambda>pr. map (producer_row (deliveries a) (variables st) pr)
                                [0..<length (time_blocks st)])
                     (get_producers (deliveries a)))"
    using b by simp_all
qed



lemma solve_Inr:
  assumes "solve Solve a = Inr (st, sch)"
  shows "build_model a = Inr st"
    and "Schedule_init (name a) (fst (Solve (solver st))) (deliveries a) st
           (snd (Solve (solver st))) = Inr sch"
  using assms
  by (auto simp: solve_def Let_def split: sum.splits prod.splits)

lemma variables_entry:
  assumes reg: "registered (deliveries a)" and run: "build_model a = Inr st"
    and kv: "(k, dv) \<in> set (variables st)"
  shows "map_of (variables st) k = Some dv"
proof -
  have "distinct (map fst (variables st))"
    using reg by (simp add: built_model(2) [OF reg run] registered_def)
  then show ?thesis
    using kv by (rule map_of_is_SomeI)
qed

lemma deliveries_entry:
  assumes reg: "registered (deliveries a)" and kd: "(k, d) \<in> set (deliveries a)"
  shows "map_of (deliveries a) k = Some d" and "k = delivery_id d"
proof -
  show "map_of (deliveries a) k = Some d"
    using reg kd by (intro map_of_is_SomeI) (simp_all add: registered_def)
  show "k = delivery_id d"
    using reg kd by (auto simp: registered_def list_all_iff)
qed


lemma length_concat_rows:
  "length (concat (map (\<lambda>pr. map (f pr) [0..<n]) prs)) = length prs * n"
  by (induction prs) simp_all

lemma set_concat_rows:
  "set (concat (map (\<lambda>pr. map (f pr) [0..<n]) prs)) = {f pr b |pr b. pr \<in> set prs \<and> b < n}"
  by auto blast

lemma consumer_row_terms:
  assumes reg: "registered (deliveries a)" and run: "build_model a = Inr st"
    and kd: "(k, d) \<in> set (deliveries a)"
  shows "fst ` set (coefficients (consumer_row (variables st) (length (time_blocks st)) (k, d)))
           = {v. \<exists>b. variable_of st k b = Some v}"
proof -
  from built_model(3) [OF reg run] kd obtain dv where dv: "map_of (variables st) k = Some dv"
    "map fst dv = filter (feasible (time_blocks st) d) [0..<length (time_blocks st)]"
    by auto
  have k: "k = delivery_id d"
    using reg kd by (rule deliveries_entry)
  have "b < length (time_blocks st)" if "map_of dv b = Some v" for b v
  proof -
    from that have "b \<in> set (map fst dv)"
      by (metis map_of_eq_None_iff option.distinct(1) set_map)
    then show ?thesis
      unfolding dv(2) by simp
  qed
  then have "{v. \<exists>b \<in> set [0..<length (time_blocks st)]. map_of dv b = Some v}
      = {v. \<exists>b. map_of dv b = Some v}"
    by auto
  then show ?thesis
    using dv(1) by (simp add: consumer_row_def k [symmetric] fold_terms_keys variable_of_def)
qed


subsection \<open>C2: variables exist for feasible pairs only\<close>


subsection \<open>C1 and C3: the constraints\<close>

lemma consumer_part:
  assumes reg: "registered (deliveries a)" and run: "build_model a = Inr st"
    and i: "i < length (deliveries a)"
  shows "solver_constraints (solver st) ! i =
           consumer_row (variables st) (length (time_blocks st)) (deliveries a ! i)"
  using i by (simp add: built_model(6) [OF reg run] nth_append)

lemma capacity_part:
  assumes reg: "registered (deliveries a)" and run: "build_model a = Inr st"
  shows "drop (length (deliveries a)) (solver_constraints (solver st)) =
           concat (map (\<lambda>pr. map (producer_row (deliveries a) (variables st) pr)
                                [0..<length (time_blocks st)])
                     (get_producers (deliveries a)))"
  by (simp add: built_model(6) [OF reg run])

lemma constraints_count:
  assumes reg: "registered (deliveries a)" and run: "build_model a = Inr st"
  shows "length (solver_constraints (solver st)) =
           length (deliveries a) + length (get_producers (deliveries a)) * length (time_blocks st)"
  by (simp add: built_model(6) [OF reg run] length_concat_rows)

text \<open>
  Claim C1, amended. The built model has one equality constraint for every delivery, the
  \<open>i\<close>-th constraint for the \<open>i\<close>-th delivery: its lower and upper bound are the
  required units of the consumer of the delivery, and its terms are, with coefficient 1,
  exactly the decision variables of that delivery over all its feasible blocks; it has no
  variable of any other delivery. All further constraints are capacity constraints with
  lower bound 0. So a consumer with one delivery has exactly one such constraint, over
  all its variables, and a consumer with several deliveries has one for each delivery,
  each asking the required units of that delivery alone.
\<close>

theorem consumer_constraint_per_delivery:
  assumes "registered (deliveries a)" and "build_model a = Inr st"
  shows "(\<forall>i < length (deliveries a).
            con_lb (solver_constraints (solver st) ! i)
              = required_units (consumer (snd (deliveries a ! i)))
            \<and> con_ub (solver_constraints (solver st) ! i)
              = required_units (consumer (snd (deliveries a ! i)))
            \<and> fst ` set (coefficients (solver_constraints (solver st) ! i))
              = {v. \<exists>b. variable_of st (fst (deliveries a ! i)) b = Some v}
            \<and> (\<forall>x \<in> set (coefficients (solver_constraints (solver st) ! i)). snd x = 1)
            \<and> (\<forall>j < length (deliveries a). j \<noteq> i \<longrightarrow>
                  fst ` set (coefficients (solver_constraints (solver st) ! i))
                  \<inter> {v. \<exists>b. variable_of st (fst (deliveries a ! j)) b = Some v} = {}))
         \<and> (\<forall>c \<in> set (drop (length (deliveries a)) (solver_constraints (solver st))).
               con_lb c = 0 \<and> (\<exists>pr \<in> set (get_producers (deliveries a)). con_ub c = max_supply pr))
         \<and> length (solver_constraints (solver st)) =
             length (deliveries a) + length (get_producers (deliveries a)) * length (time_blocks st)"
proof (intro conjI allI impI ballI)
  fix i assume i: "i < length (deliveries a)"
  obtain k d where kd: "deliveries a ! i = (k, d)"
    by (cases "deliveries a ! i")
  have mem: "(k, d) \<in> set (deliveries a)"
    using i kd by (metis nth_mem)
  note row = consumer_part [OF assms i, unfolded kd]
  show "con_lb (solver_constraints (solver st) ! i)
          = required_units (consumer (snd (deliveries a ! i)))"
    and "con_ub (solver_constraints (solver st) ! i)
          = required_units (consumer (snd (deliveries a ! i)))"
    by (simp_all add: row kd consumer_row_def)
  show terms: "fst ` set (coefficients (solver_constraints (solver st) ! i))
          = {v. \<exists>b. variable_of st (fst (deliveries a ! i)) b = Some v}"
    using consumer_row_terms [OF assms mem] by (simp add: row kd)
  show "snd x = 1" if "x \<in> set (coefficients (solver_constraints (solver st) ! i))" for x
    using that fold_terms_ones [of "[]"] by (auto simp: row consumer_row_def)
  show "fst ` set (coefficients (solver_constraints (solver st) ! i))
          \<inter> {v. \<exists>b. variable_of st (fst (deliveries a ! j)) b = Some v} = {}"
    if j: "j < length (deliveries a)" "j \<noteq> i" for j
  proof -
    have "distinct (map fst (deliveries a))"
      using assms(1) by (simp add: registered_def)
    then have "fst (deliveries a ! i) \<noteq> fst (deliveries a ! j)"
      using i j by (metis length_map nth_eq_iff_index_eq nth_map)
    then show ?thesis
      using built_model(5) [OF assms] unfolding terms handles_ok_def by blast
  qed
next
  fix c assume "c \<in> set (drop (length (deliveries a)) (solver_constraints (solver st)))"
  then obtain pr b where "pr \<in> set (get_producers (deliveries a))"
    "c = producer_row (deliveries a) (variables st) pr b"
    unfolding capacity_part [OF assms] set_concat_rows by blast
  then show "con_lb c = 0"
    and "\<exists>pr \<in> set (get_producers (deliveries a)). con_ub c = max_supply pr"
    by (auto simp: producer_row_def)
next
  show "length (solver_constraints (solver st)) =
             length (deliveries a) + length (get_producers (deliveries a)) * length (time_blocks st)"
    using assms by (rule constraints_count)
qed


subsection \<open>C5 and C6: the schedule\<close>

lemma extract_variables_total:
  assumes "\<forall>(b, v) \<in> set dv. b < length blocks"
  shows "\<exists>sch'. for_each (extract_variable pr co blocks sol) dv sch = Inr sch'"
  using assms
proof (induction dv arbitrary: sch)
  case Nil
  then show ?case by simp
next
  case (Cons bv dv)
  obtain b v where bv: "bv = (b, v)"
    by (cases bv)
  have "b < length blocks"
    using Cons.prems by (simp add: bv)
  then have "\<exists>sch1. extract_variable pr co blocks sol (b, v) sch = Inr sch1"
    by (simp add: extract_variable_def Let_def)
  then obtain sch1 where "extract_variable pr co blocks sol (b, v) sch = Inr sch1"
    by blast
  moreover have "\<exists>sch'. for_each (extract_variable pr co blocks sol) dv sch1 = Inr sch'"
    using Cons.prems by (intro Cons.IH) simp
  ultimately show ?case
    by (simp add: bv)
qed

lemma extract_deliveries_total:
  assumes "\<forall>(k, dv) \<in> set vars. map_of ds k \<noteq> None \<and> (\<forall>(b, v) \<in> set dv. b < length blocks)"
  shows "\<exists>sch'. for_each (extract_delivery ds blocks sol) vars sch = Inr sch'"
  using assms
proof (induction vars arbitrary: sch)
  case Nil
  then show ?case by simp
next
  case (Cons kv vars)
  obtain k dv where kv: "kv = (k, dv)"
    by (cases kv)
  from Cons.prems obtain d where d: "map_of ds k = Some d"
    and dv: "\<forall>(b, v) \<in> set dv. b < length blocks"
    by (auto simp: kv)
  from extract_variables_total [OF dv, of "producer d" "consumer d" sol sch]
  obtain sch1 where "extract_delivery ds blocks sol (k, dv) sch = Inr sch1"
    by (auto simp: extract_delivery_def d)
  moreover have "\<exists>sch'. for_each (extract_delivery ds blocks sol) vars sch1 = Inr sch'"
    using Cons.prems by (intro Cons.IH) simp
  ultimately show ?case
    by (simp add: kv)
qed

lemma Schedule_init_total:
  assumes reg: "registered (deliveries a)" and run: "build_model a = Inr st"
  shows "\<exists>sch. Schedule_init nm status (deliveries a) st sol = Inr sch"
proof (cases "status = OPTIMAL \<or> status = FEASIBLE")
  case False
  then show ?thesis
    using Schedule_init_unsolved [of status nm "deliveries a" st sol] by simp
next
  case True
  have "map_of (deliveries a) k \<noteq> None \<and> (\<forall>(b, v) \<in> set dv. b < length (time_blocks st))"
    if kv: "(k, dv) \<in> set (variables st)" for k dv
  proof -
    from kv have "k \<in> set (map fst (variables st))"
      by force
    then have "k \<in> set (map fst (deliveries a))"
      by (simp add: built_model(2) [OF reg run])
    then obtain d where d: "(k, d) \<in> set (deliveries a)"
      by auto
    from built_model(3) [OF reg run] d variables_entry [OF reg run kv]
    have "map fst dv = filter (feasible (time_blocks st) d) [0..<length (time_blocks st)]"
      by auto
    then have "set (map fst dv) \<subseteq> {..<length (time_blocks st)}"
      by auto
    then have "\<forall>(b, v) \<in> set dv. b < length (time_blocks st)"
      by force
    moreover have "map_of (deliveries a) k \<noteq> None"
      using deliveries_entry(1) [OF reg d] by simp
    ultimately show ?thesis
      by simp
  qed
  then have "\<forall>(k, dv) \<in> set (variables st).
      map_of (deliveries a) k \<noteq> None \<and> (\<forall>(b, v) \<in> set dv. b < length (time_blocks st))"
    by blast
  from extract_deliveries_total [OF this] True show ?thesis
    by (simp add: Schedule_init_def Let_def)
qed

lemma solve_returns:
  assumes reg: "registered (deliveries a)" and run: "build_model a = Inr st"
  shows "\<exists>sch. solve Solve a = Inr (st, sch)"
proof -
  from Schedule_init_total [OF reg run, of "name a" "fst (Solve (solver st))" "snd (Solve (solver st))"]
  obtain sch where "Schedule_init (name a) (fst (Solve (solver st))) (deliveries a) st
      (snd (Solve (solver st))) = Inr sch"
    by blast
  then have "solve Solve a = Inr (st, sch)"
    by (simp add: solve_def run Let_def case_prod_unfold)
  then show ?thesis by blast
qed

lemma foldl_add_price_sum_list:
  fixes rs :: "('n::{comm_monoid_add,times}) DeliveryRecord list"
  shows "foldl add_price z rs = z + sum_list (map (\<lambda>r. units_to_supply r * unit_price r) rs)"
  by (induction rs arbitrary: z) (simp_all add: add_price_def add.assoc)

text \<open>
  Claim C5. For a schedule built from the status \<open>OPTIMAL\<close> or \<open>FEASIBLE\<close>, the list of
  records is, in the order of the dictionary of variables, one record for every variable
  of a delivery and a block whose solution value is strictly positive, and no record for
  the others; the total price is the sum, accumulated from 0 over these records in this
  order, of the units to supply times the unit price of the record, which is the price
  of its block. No law of arithmetic enters, so the equality is exact.
\<close>

theorem schedule_records_and_price:
  assumes "Schedule_init nm status ds built sol = Inr sch"
    and "status = OPTIMAL \<or> status = FEASIBLE"
  shows "schedule_deliveries sch =
           concat (map (records_of_delivery ds (time_blocks built) sol) (variables built))
         \<and> total_price sch = foldl add_price 0 (schedule_deliveries sch)"
  using Schedule_init_solved(1,2) [OF assms] by simp

text \<open>
  Claim C6. For every status, a schedule is solved if and only if the status is
  \<open>OPTIMAL\<close> or \<open>FEASIBLE\<close>, and its message is one of three different texts, for
  optimal, feasible and anything else. For any other status the constructor returns,
  without an exception, the schedule with total price 0 and no records, whatever the
  values of the variables are: they are not read. A solve whose model is built returns a
  schedule for every answer of the solver, an infeasible one included.
\<close>

theorem schedule_for_every_status:
  "(Schedule_init nm status ds built sol = Inr sch \<longrightarrow>
      (solved sch \<longleftrightarrow> status = OPTIMAL \<or> status = FEASIBLE)
      \<and> result sch = (if status = OPTIMAL then optimal_message
                       else if status = FEASIBLE then feasible_message
                       else unsolved_message))
   \<and> (status \<noteq> OPTIMAL \<and> status \<noteq> FEASIBLE \<longrightarrow>
        Schedule_init nm status ds built sol =
          Inr \<lparr>schedule_name = nm, total_price = 0, schedule_deliveries = [],
               solved = False, result = unsolved_message\<rparr>)
   \<and> distinct [optimal_message, feasible_message, unsolved_message]
   \<and> (registered (deliveries a) \<and> build_model a = Inr st \<longrightarrow>
        (\<exists>sch'. solve Solve a = Inr (st, sch')))"
proof (intro conjI impI)
  assume "Schedule_init nm status ds built sol = Inr sch"
  from Schedule_init_flags [OF this]
  show "solved sch \<longleftrightarrow> status = OPTIMAL \<or> status = FEASIBLE"
    and "result sch = (if status = OPTIMAL then optimal_message
                       else if status = FEASIBLE then feasible_message
                       else unsolved_message)"
    by (simp_all add: optimal_message_def feasible_message_def)
next
  assume "status \<noteq> OPTIMAL \<and> status \<noteq> FEASIBLE"
  then show "Schedule_init nm status ds built sol =
          Inr \<lparr>schedule_name = nm, total_price = 0, schedule_deliveries = [],
               solved = False, result = unsolved_message\<rparr>"
    by (simp add: Schedule_init_unsolved)
next
  show "distinct [optimal_message, feasible_message, unsolved_message]"
    by (simp add: optimal_message_def feasible_message_def unsolved_message_def)
next
  assume "registered (deliveries a) \<and> build_model a = Inr st"
  then show "\<exists>sch'. solve Solve a = Inr (st, sch')"
    by (simp add: solve_returns)
qed

subsection \<open>C8: the order of the records\<close>

lemma records_ascending:
  assumes reg: "registered (deliveries a)" and run: "build_model a = Inr st"
    and kv: "kv \<in> set (variables st)"
  shows "sorted_wrt (<) (map time_block
           (records_of_delivery (deliveries a) (time_blocks st) sol kv))"
proof -
  obtain k dv where p: "kv = (k, dv)"
    by (cases kv)
  have "k \<in> set (map fst (variables st))"
    using kv p by force
  then have "k \<in> set (map fst (deliveries a))"
    by (simp add: built_model(2) [OF reg run])
  then obtain d where d: "(k, d) \<in> set (deliveries a)"
    by auto
  from built_model(3) [OF reg run] d variables_entry [OF reg run kv [unfolded p]]
  have "map fst dv = filter (feasible (time_blocks st) d) [0..<length (time_blocks st)]"
    by auto
  then have "sorted_wrt (<) (map fst dv)"
    by (simp add: sorted_wrt_filter)
  then have "sorted_wrt (\<lambda>x y. fst x < fst y) (filter (\<lambda>(b, v). 0 < sol v) dv)"
    by (simp add: sorted_wrt_map sorted_wrt_filter)
  then have "sorted_wrt (<) (map fst (filter (\<lambda>(b, v). 0 < sol v) dv))"
    by (simp add: sorted_wrt_map)
  moreover have "time_block \<circ> record_of d (time_blocks st) sol = fst"
    by (auto simp: record_of_def fun_eq_iff)
  ultimately show ?thesis
    by (simp add: p records_of_delivery_def deliveries_entry(1) [OF reg d])
qed

text \<open>
  Claim C8, amended. The list of records of a solved schedule, as returned, is in
  insertion order: the records of the first registered delivery, then those of the
  second, and so on, ascending in the block number within each delivery; it is ascending
  by block number when there is at most one delivery. The order ascending by block
  number, with records of the same block in insertion order, is that of the rows of the
  printed report.
\<close>

theorem returned_order_is_insertion_order:
  assumes "registered (deliveries a)" and "solve Solve a = Inr (st, sch)" and "solved sch"
  shows "schedule_deliveries sch =
           concat (map (records_of_delivery (deliveries a) (time_blocks st)
                          (snd (Solve (solver st))))
                     (variables st))
         \<and> map fst (variables st) = map fst (deliveries a)
         \<and> (\<forall>kv \<in> set (variables st).
               sorted_wrt (<) (map time_block
                 (records_of_delivery (deliveries a) (time_blocks st)
                    (snd (Solve (solver st))) kv)))
         \<and> (length (deliveries a) \<le> 1 \<longrightarrow> sorted (map time_block (schedule_deliveries sch)))
         \<and> sorted (map time_block (printed_rows sch))
         \<and> (\<forall>n. filter (\<lambda>r. time_block r = n) (printed_rows sch)
                = filter (\<lambda>r. time_block r = n) (schedule_deliveries sch))"
proof -
  note run = solve_Inr(1) [OF assms(2)] and sch = solve_Inr(2) [OF assms(2)]
  define sol where "sol = snd (Solve (solver st))"
  have st: "fst (Solve (solver st)) = OPTIMAL \<or> fst (Solve (solver st)) = FEASIBLE"
    using Schedule_init_flags(1) [OF sch] assms(3) by simp
  have 1: "schedule_deliveries sch =
      concat (map (records_of_delivery (deliveries a) (time_blocks st) sol) (variables st))"
    unfolding sol_def using sch st by (rule Schedule_init_solved(1))
  have 2: "map fst (variables st) = map fst (deliveries a)"
    using assms(1) run by (rule built_model(2))
  have 3: "\<forall>kv \<in> set (variables st).
      sorted_wrt (<) (map time_block (records_of_delivery (deliveries a) (time_blocks st) sol kv))"
    using records_ascending [OF assms(1) run] by blast
  have 4: "sorted (map time_block (schedule_deliveries sch))" if "length (deliveries a) \<le> 1"
  proof -
    from that have "length (variables st) \<le> 1"
      using 2 by (metis length_map)
    then consider "variables st = []" | kv where "variables st = [kv]"
      by (cases "variables st") (auto simp: Suc_le_eq)
    then show ?thesis
    proof cases
      case 1
      then show ?thesis
        by (simp add: \<open>schedule_deliveries sch = _\<close>)
    next
      case 2
      with 3 have "sorted_wrt (<) (map time_block (schedule_deliveries sch))"
        by (simp add: \<open>schedule_deliveries sch = _\<close>)
      then show ?thesis
        by (rule strict_sorted_imp_sorted)
    qed
  qed
  have 5: "sorted (map time_block (printed_rows sch))"
    using assms(3) by (simp add: printed_rows_def)
  have 6: "\<forall>n. filter (\<lambda>r. time_block r = n) (printed_rows sch)
                = filter (\<lambda>r. time_block r = n) (schedule_deliveries sch)"
    using assms(3) by (simp add: printed_rows_def sort_key_stable)
  show ?thesis
    using 1 2 3 4 5 6 unfolding sol_def by blast
qed

theorem consumer_constraint_per_delivery_witness:
  "registered (deliveries scenario)
   \<and> build_model scenario = Inr scenario_built
   \<and> rows scenario_built =
       [(2, 2, [(0, 1), (1, 1)]), (1, 1, [(2, 1)]),
        (0, 1, [(0, 1)]), (0, 1, [(1, 1)]), (0, 1, [(2, 1)]), (0, 1, [])]
   \<and> length (solver_constraints (solver scenario_built)) = 2 + 2 * 2
   \<and> con_lb (solver_constraints (solver scenario_built) ! 1) = 1"
proof -
  have h1: "registered (deliveries scenario)"
    by code_simp
  have h2: "build_model scenario = Inr scenario_built"
    by code_simp
  have r: "rows scenario_built =
       [(2, 2, [(0, 1), (1, 1)]), (1, 1, [(2, 1)]),
        (0, 1, [(0, 1)]), (0, 1, [(1, 1)]), (0, 1, [(2, 1)]), (0, 1, [])]"
    by code_simp
  have n: "length (deliveries scenario) = 2" "length (get_producers (deliveries scenario)) = 2"
    "length (time_blocks scenario_built) = 2"
    by code_simp+
  have one: "1 < length (deliveries scenario)"
    by code_simp
  have ru: "required_units (consumer (snd (deliveries scenario ! 1))) = 1"
    by code_simp
  note t = consumer_constraint_per_delivery [OF h1 h2]
  from t have "length (solver_constraints (solver scenario_built)) = 2 + 2 * 2"
    unfolding n by blast
  moreover from t one have "con_lb (solver_constraints (solver scenario_built) ! 1)
      = required_units (consumer (snd (deliveries scenario ! 1)))"
    by blast
  then have "con_lb (solver_constraints (solver scenario_built) ! 1) = 1"
    unfolding ru .
  ultimately show ?thesis
    using h1 h2 r by blast
qed

text \<open>
  The claim as stated fails for a consumer with two deliveries: the model of
  \<open>shared_consumer\<close> has two equality constraints with the bounds 2 of consumer \<open>co1\<close>,
  one over the variables 0 and 1 of the delivery with \<open>cp1\<close> and one over the variables
  2 and 3 of the delivery with \<open>cp2\<close>, and no constraint that sums the four variables.
\<close>

theorem consumer_constraint_per_delivery_counterexample:
  "map (consumer_id \<circ> consumer \<circ> snd) (deliveries shared_consumer) = [''co1'', ''co1'']
   \<and> map_sum id variables (build_model shared_consumer) =
       Inr [(''c-co1, p-cp1'', [(0, 0), (1, 1)]), (''c-co1, p-cp2'', [(0, 2), (1, 3)])]
   \<and> map_sum id rows (build_model shared_consumer) =
       Inr [(2, 2, [(0, 1), (1, 1)]), (2, 2, [(2, 1), (3, 1)]),
            (0, 1, [(0, 1)]), (0, 1, [(1, 1)]), (0, 1, [(2, 1)]), (0, 1, [(3, 1)])]"
  by code_simp



theorem schedule_records_and_price_witness:
  "Schedule_init (name scenario) OPTIMAL (deliveries scenario) scenario_built
     (snd (solver_ones (solver scenario_built))) = Inr scenario_schedule
   \<and> (OPTIMAL = OPTIMAL \<or> OPTIMAL = FEASIBLE)
   \<and> map units_to_supply (schedule_deliveries scenario_schedule) = [1, 1, 1]
   \<and> map unit_price (schedule_deliveries scenario_schedule) = [2, 2, 2]
   \<and> foldl add_price 0 (schedule_deliveries scenario_schedule) = 6
   \<and> total_price scenario_schedule = 6"
proof -
  have h1: "Schedule_init (name scenario) OPTIMAL (deliveries scenario) scenario_built
     (snd (solver_ones (solver scenario_built))) = Inr scenario_schedule"
    by code_simp
  have h2: "OPTIMAL = OPTIMAL \<or> OPTIMAL = FEASIBLE"
    by simp
  have c: "map units_to_supply (schedule_deliveries scenario_schedule) = [1, 1, 1]"
    "map unit_price (schedule_deliveries scenario_schedule) = [2, 2, 2]"
    "foldl add_price 0 (schedule_deliveries scenario_schedule) = 6"
    by code_simp+
  from schedule_records_and_price [OF h1 h2] c(3)
  have "total_price scenario_schedule = 6"
    by simp
  with h1 c show ?thesis
    by simp
qed

theorem schedule_for_every_status_witness:
  "registered (deliveries scenario)
   \<and> build_model scenario = Inr scenario_built
   \<and> Schedule_init (name scenario) INFEASIBLE (deliveries scenario) scenario_built
        (snd (solver_infeasible (solver scenario_built)))
       = Inr \<lparr>schedule_name = name scenario, total_price = 0, schedule_deliveries = [],
              solved = False, result = unsolved_message\<rparr>
   \<and> solve solver_infeasible scenario
       = Inr (scenario_built,
              \<lparr>schedule_name = name scenario, total_price = 0, schedule_deliveries = [],
               solved = False, result = unsolved_message\<rparr>)"
proof -
  have h1: "registered (deliveries scenario)"
    by code_simp
  have h2: "build_model scenario = Inr scenario_built"
    by code_simp
  have s: "INFEASIBLE \<noteq> OPTIMAL \<and> INFEASIBLE \<noteq> FEASIBLE"
    by simp
  from schedule_for_every_status [of "name scenario" INFEASIBLE "deliveries scenario" scenario_built
      "snd (solver_infeasible (solver scenario_built))" scenario_schedule scenario scenario_built
      solver_infeasible] s
  have i: "Schedule_init (name scenario) INFEASIBLE (deliveries scenario) scenario_built
        (snd (solver_infeasible (solver scenario_built)))
       = Inr \<lparr>schedule_name = name scenario, total_price = 0, schedule_deliveries = [],
              solved = False, result = unsolved_message\<rparr>"
    by blast
  have "fst (solver_infeasible (solver scenario_built)) = INFEASIBLE"
    by (simp add: solver_infeasible_def)
  with i h2 have "solve solver_infeasible scenario
       = Inr (scenario_built,
              \<lparr>schedule_name = name scenario, total_price = 0, schedule_deliveries = [],
               solved = False, result = unsolved_message\<rparr>)"
    by (simp add: solve_def Let_def case_prod_unfold)
  with h1 h2 i show ?thesis
    by blast
qed

theorem returned_order_is_insertion_order_witness:
  "registered (deliveries scenario)
   \<and> solve solver_ones scenario = Inr (scenario_built, scenario_schedule)
   \<and> solved scenario_schedule
   \<and> map time_block (printed_rows scenario_schedule) = [0, 0, 1]
   \<and> map consumer_of (printed_rows scenario_schedule) = [''co1'', ''ev2'', ''co1'']
   \<and> sorted (map time_block (printed_rows scenario_schedule))"
proof -
  have h1: "registered (deliveries scenario)"
    by code_simp
  have h2: "solve solver_ones scenario = Inr (scenario_built, scenario_schedule)"
    by code_simp
  have h3: "solved scenario_schedule"
    by code_simp
  have c: "map time_block (printed_rows scenario_schedule) = [0, 0, 1]"
    "map consumer_of (printed_rows scenario_schedule) = [''co1'', ''ev2'', ''co1'']"
    by code_simp+
  from returned_order_is_insertion_order [OF h1 h2 h3]
  have "sorted (map time_block (printed_rows scenario_schedule))"
    by blast
  with h1 h2 h3 c show ?thesis
    by blast
qed

text \<open>
  With two deliveries the returned list is not ascending: in the scenario the records
  are those of the blocks 0 and 1 of the first delivery, then the one of block 0 of the
  second.
\<close>

theorem returned_order_is_insertion_order_counterexample:
  "solve solver_ones scenario = Inr (scenario_built, scenario_schedule)
   \<and> solved scenario_schedule
   \<and> length (schedule_deliveries scenario_schedule) = 3
   \<and> map time_block (schedule_deliveries scenario_schedule) = [0, 1, 0]
   \<and> \<not> sorted (map time_block (schedule_deliveries scenario_schedule))"
  by code_simp

end
